theory Spec2Isabelle
  imports Main "HOL-Library.AList"
begin

section \<open>Values of the run-time\<close>

text \<open>
  Objects are compared by reference in the source (\<^verbatim>\<open>Map\<close> keys, \<^verbatim>\<open>toBe\<close>,
  \<^verbatim>\<open>!==\<close>). A reference says where the object comes from: \<open>Builtin\<close> for the objects
  the language and the framework define themselves (\<^verbatim>\<open>Object\<close>, the dispatcher classes,
  the tokens of tokens.ts), \<open>Given\<close> for objects the application creates, \<open>Alloc\<close> for
  the objects a container creates with \<^verbatim>\<open>new\<close>, numbered by its allocation counter.
\<close>

datatype ref = Builtin nat | Given nat | Alloc nat

text \<open>A class constructor: its identity and its \<^verbatim>\<open>name\<close> property.\<close>

datatype cls = Cls (cls_ref: ref) (cls_name: string)

text \<open>types.ts, \<^verbatim>\<open>class Token\<close>: an object with a readonly \<^verbatim>\<open>name\<close>.\<close>

datatype token = Token (token_ref: ref) (token_name: string)

text \<open>types.ts, \<^verbatim>\<open>ServiceIdentifier = string | constructor | Token\<close>.\<close>

datatype ident = Str string | Class cls | Tok token

text \<open>JavaScript errors: \<^verbatim>\<open>new Error(message)\<close>, and the \<^verbatim>\<open>TypeError\<close> of the
  run-time for a property access on \<^verbatim>\<open>null\<close>.\<close>

datatype error = Error string | TypeError string

text \<open>
  A JavaScript \<^verbatim>\<open>Map\<close> keeps its keys in insertion order: an association list in
  which \<^verbatim>\<open>set\<close> replaces the value of a present key in place and appends a new key.
\<close>

type_synonym ('k, 'v) jsmap = "('k \<times> 'v) list"

definition Map_has :: "('k, 'v) jsmap \<Rightarrow> 'k \<Rightarrow> bool" where
  "Map_has m k = (map_of m k \<noteq> None)"

definition Map_get :: "('k, 'v) jsmap \<Rightarrow> 'k \<Rightarrow> 'v option" where
  "Map_get m k = map_of m k"

definition Map_set :: "('k, 'v) jsmap \<Rightarrow> 'k \<Rightarrow> 'v \<Rightarrow> ('k, 'v) jsmap" where
  "Map_set m k v = AList.update k v m"

definition Map_delete :: "('k, 'v) jsmap \<Rightarrow> 'k \<Rightarrow> ('k, 'v) jsmap" where
  "Map_delete m k = AList.delete k m"

definition Map_keys :: "('k, 'v) jsmap \<Rightarrow> 'k list" where
  "Map_keys m = map fst m"

section \<open>registry/handler-registry.ts\<close>

datatype handlerType = command | query | event

text \<open>types.ts, \<^verbatim>\<open>interface HandlerRegistration\<close>.\<close>

record HandlerRegistration =
  handlerClass :: cls
  targetType :: string
  handlerType :: handlerType

text \<open>The four static fields of \<^verbatim>\<open>HandlerRegistry\<close>: one value for the whole process.\<close>

record HandlerRegistry =
  commandHandlersMap :: "(string, cls) jsmap"
  queryHandlersMap :: "(string, cls) jsmap"
  eventHandlersMap :: "(string, cls list) jsmap"
  serviceClasses :: "cls list"

definition HandlerRegistry_initial :: HandlerRegistry where
  "HandlerRegistry_initial =
     \<lparr>commandHandlersMap = [], queryHandlersMap = [], eventHandlersMap = [], serviceClasses = []\<rparr>"

definition registerServiceClass :: "HandlerRegistry \<Rightarrow> cls \<Rightarrow> HandlerRegistry" where
  "registerServiceClass r serviceClass =
     (if serviceClass \<notin> set (serviceClasses r)
      then r\<lparr>serviceClasses := serviceClasses r @ [serviceClass]\<rparr>
      else r)"

text \<open>\<^verbatim>\<open>HandlerRegistry.register\<close>: \<open>Inl\<close> is the thrown error, \<open>Inr\<close> the registry after
  the call.\<close>

definition register :: "HandlerRegistry \<Rightarrow> cls \<Rightarrow> string \<Rightarrow> handlerType \<Rightarrow> error + HandlerRegistry" where
  "register r hc tt ht =
     (case ht of
        command \<Rightarrow>
          if Map_has (commandHandlersMap r) tt
          then Inl (Error (''Command handler for '' @ [CHR 39] @ tt @ [CHR 39] @ '' already registered.''))
          else Inr (registerServiceClass
                 (r\<lparr>commandHandlersMap := Map_set (commandHandlersMap r) tt hc\<rparr>) hc)
      | query \<Rightarrow>
          if Map_has (queryHandlersMap r) tt
          then Inl (Error (''Query handler for '' @ [CHR 39] @ tt @ [CHR 39] @ '' already registered.''))
          else Inr (registerServiceClass
                 (r\<lparr>queryHandlersMap := Map_set (queryHandlersMap r) tt hc\<rparr>) hc)
      | event \<Rightarrow>
          (let existingEventHandlers =
                 (case Map_get (eventHandlersMap r) tt of Some hs \<Rightarrow> hs | None \<Rightarrow> [])
           in Inr (registerServiceClass
                 (r\<lparr>eventHandlersMap :=
                      Map_set (eventHandlersMap r) tt (existingEventHandlers @ [hc])\<rparr>) hc)))"

definition getRegistrations :: "HandlerRegistry \<Rightarrow> HandlerRegistration list" where
  "getRegistrations r =
     map (\<lambda>(tt, hc). \<lparr>handlerClass = hc, targetType = tt, handlerType = command\<rparr>)
         (commandHandlersMap r)
     @ map (\<lambda>(tt, hc). \<lparr>handlerClass = hc, targetType = tt, handlerType = query\<rparr>)
         (queryHandlersMap r)
     @ concat (map (\<lambda>(tt, hcs).
           map (\<lambda>hc. \<lparr>handlerClass = hc, targetType = tt, handlerType = event\<rparr>) hcs)
         (eventHandlersMap r))"

definition getServiceClasses :: "HandlerRegistry \<Rightarrow> cls list" where
  "getServiceClasses r = serviceClasses r"

definition HandlerRegistry_clear :: "HandlerRegistry \<Rightarrow> HandlerRegistry" where
  "HandlerRegistry_clear r =
     r\<lparr>commandHandlersMap := [], queryHandlersMap := [], eventHandlersMap := [],
       serviceClasses := []\<rparr>"

section \<open>Service values and descriptors (types.ts)\<close>

text \<open>
  What a container hands out. \<open>Obj\<close> is an object made by \<^verbatim>\<open>new C(...args)\<close>: its
  reference, its class and the arguments the constructor was called with, so that two
  objects are the same object exactly when their references agree. Constructors are taken
  to store their arguments and return the new object. \<open>Prim\<close> is a primitive string,
  \<open>Undefined\<close> is \<^verbatim>\<open>undefined\<close>, and \<open>ContainerSelf\<close> is the container object itself,
  which the orchestrator registers under the container token.
\<close>

datatype val = Undefined | Prim string | Obj ref cls "val list" | ContainerSelf

text \<open>
  \<^verbatim>\<open>ServiceFactory = (container) => T\<close> is application code. The model covers the
  factories that do not call back into the container: such a factory is a function of the
  next free allocation number, where it may place the object it creates.
\<close>

type_synonym ServiceFactory = "nat \<Rightarrow> val"

text \<open>An array that may have holes (\<^verbatim>\<open>Inject\<close> makes them): \<open>None\<close> is a hole.\<close>

type_synonym 'a sparse = "'a option list"

datatype ServiceDescriptor =
    FactoryServiceDescriptor ident ServiceFactory bool
  | ConstructorServiceDescriptor ident cls bool "ident sparse option"
  | InstanceServiceDescriptor ident val

fun singleton :: "ServiceDescriptor \<Rightarrow> bool" where
  "singleton (FactoryServiceDescriptor i f s) = s"
| "singleton (ConstructorServiceDescriptor i k s ds) = s"
| "singleton (InstanceServiceDescriptor i v) = True"

fun descriptor_identifier :: "ServiceDescriptor \<Rightarrow> ident" where
  "descriptor_identifier (FactoryServiceDescriptor i f s) = i"
| "descriptor_identifier (ConstructorServiceDescriptor i k s ds) = i"
| "descriptor_identifier (InstanceServiceDescriptor i v) = i"

text \<open>JavaScript truthiness, as \<^verbatim>\<open>||\<close> and \<^verbatim>\<open>if\<close> use it: the empty string and
  \<^verbatim>\<open>undefined\<close> are falsy, every object is truthy.\<close>

fun truthy :: "ident \<Rightarrow> bool" where
  "truthy (Str s) = (s \<noteq> [])"
| "truthy (Class k) = True"
| "truthy (Tok t) = True"

fun truthy_val :: "val \<Rightarrow> bool" where
  "truthy_val Undefined = False"
| "truthy_val (Prim s) = (s \<noteq> [])"
| "truthy_val (Obj a k args) = True"
| "truthy_val ContainerSelf = True"

text \<open>\<^verbatim>\<open>Array.prototype.map\<close> leaves holes alone and never calls its callback on one;
  spreading an array into an argument list reads a hole as \<^verbatim>\<open>undefined\<close>.\<close>

definition map_sparse :: "('a \<Rightarrow> 'b) \<Rightarrow> 'a sparse \<Rightarrow> 'b sparse" where
  "map_sparse f xs = map (map_option f) xs"

definition spread :: "val sparse \<Rightarrow> val list" where
  "spread xs = map (\<lambda>x. case x of None \<Rightarrow> Undefined | Some v \<Rightarrow> v) xs"

section \<open>The metadata store (\<^verbatim>\<open>Reflect.defineMetadata\<close> / \<^verbatim>\<open>getMetadata\<close>)\<close>

text \<open>The value \<^verbatim>\<open>Injectable\<close> stores under \<^verbatim>\<open>cqrs:injectable-service\<close>.\<close>

record InjectableMetadata =
  im_id :: ident
  im_singleton :: bool

text \<open>One partial map per metadata key the framework uses: what
  \<^verbatim>\<open>Reflect.getMetadata(key, class)\<close> finds for the class, which is the metadata defined
  on the class itself or else the metadata it inherits from a superclass; \<open>None\<close> when it
  finds none. A decorator writes the entry of the class it decorates.\<close>

record Metadata =
  injectable_service :: "cls \<rightharpoonup> InjectableMetadata"
  lifecycle :: "cls \<rightharpoonup> bool"
  param_dependencies :: "cls \<rightharpoonup> ident sparse"
  class_dependencies :: "cls \<rightharpoonup> ident sparse"
  string_dependencies :: "cls \<rightharpoonup> ident sparse"

definition Metadata_empty :: Metadata where
  "Metadata_empty =
     \<lparr>injectable_service = Map.empty, lifecycle = Map.empty, param_dependencies = Map.empty,
      class_dependencies = Map.empty, string_dependencies = Map.empty\<rparr>"

section \<open>The decorators of decorators/ioc-handler.ts\<close>

text \<open>\<^verbatim>\<open>Inject(identifier)(target, _, parameterIndex)\<close>: the stored array is lengthened
  with holes up to the index, then written at the index.\<close>

definition Inject :: "ident \<Rightarrow> cls \<Rightarrow> nat \<Rightarrow> Metadata \<Rightarrow> Metadata" where
  "Inject i target parameterIndex md =
     (let existingDeps = (case param_dependencies md target of Some ds \<Rightarrow> ds | None \<Rightarrow> []);
          existingDeps1 =
            (if length existingDeps \<le> parameterIndex
             then existingDeps @ replicate (parameterIndex + 1 - length existingDeps) None
             else existingDeps)
      in md\<lparr>param_dependencies :=
              (param_dependencies md)(target \<mapsto> existingDeps1[parameterIndex := Some i])\<rparr>)"

definition Singleton :: "cls \<Rightarrow> Metadata \<Rightarrow> Metadata" where
  "Singleton k md = md\<lparr>lifecycle := (lifecycle md)(k \<mapsto> True)\<rparr>"

definition Transient :: "cls \<Rightarrow> Metadata \<Rightarrow> Metadata" where
  "Transient k md = md\<lparr>lifecycle := (lifecycle md)(k \<mapsto> False)\<rparr>"

text \<open>
  The argument of \<^verbatim>\<open>Injectable\<close>: an options object with an optional \<^verbatim>\<open>id\<close> (the
  default is \<^verbatim>\<open>{}\<close>), or an identifier given directly.
\<close>

datatype InjectableArgument = Options "ident option" | Direct ident

text \<open>
  \<^verbatim>\<open>Injectable(optionsOrIdentifier)(constructor)\<close> writes the metadata and adds the
  class to the registry's service classes. The first branch of the source takes every
  object that is not null and has no \<^verbatim>\<open>prototype\<close> property as an options object: so
  it takes a token given directly, which has no \<^verbatim>\<open>id\<close>, and the identifier is then
  the class.
\<close>

definition Injectable ::
  "InjectableArgument \<Rightarrow> cls \<Rightarrow> Metadata \<times> HandlerRegistry \<Rightarrow> Metadata \<times> HandlerRegistry" where
  "Injectable optionsOrIdentifier k st =
     (let md = fst st; r = snd st;
          i = (case optionsOrIdentifier of
                 Options None \<Rightarrow> Class k
               | Options (Some i) \<Rightarrow> if truthy i then i else Class k
               | Direct (Tok t) \<Rightarrow> Class k
               | Direct i \<Rightarrow> if truthy i then i else Class k);
          sing = (case lifecycle md k of Some b \<Rightarrow> b | None \<Rightarrow> True)
      in (md\<lparr>injectable_service :=
               (injectable_service md)(k \<mapsto> \<lparr>im_id = i, im_singleton = sing\<rparr>)\<rparr>,
          registerServiceClass r k))"

section \<open>The decorators of decorators/handlers.ts\<close>

text \<open>
  \<^verbatim>\<open>CommandHandler(commandClass)(target)\<close>, and likewise for queries and events: the
  handler is registered under the name of the message class, which may throw, and the
  target is made injectable unless it carries the injectable metadata already.
\<close>

definition handler_decorator ::
  "handlerType \<Rightarrow> cls \<Rightarrow> cls \<Rightarrow> Metadata \<times> HandlerRegistry \<Rightarrow> error + Metadata \<times> HandlerRegistry" where
  "handler_decorator ht messageClass target st =
     (case register (snd st) target (cls_name messageClass) ht of
        Inl e \<Rightarrow> Inl e
      | Inr r \<Rightarrow>
          if injectable_service (fst st) target = None
          then Inr (Injectable (Options None) target (fst st, r))
          else Inr (fst st, r))"

definition CommandHandler ::
  "cls \<Rightarrow> cls \<Rightarrow> Metadata \<times> HandlerRegistry \<Rightarrow> error + Metadata \<times> HandlerRegistry" where
  "CommandHandler commandClass target st = handler_decorator command commandClass target st"

definition QueryHandler ::
  "cls \<Rightarrow> cls \<Rightarrow> Metadata \<times> HandlerRegistry \<Rightarrow> error + Metadata \<times> HandlerRegistry" where
  "QueryHandler queryClass target st = handler_decorator query queryClass target st"

definition EventHandler ::
  "cls \<Rightarrow> cls \<Rightarrow> Metadata \<times> HandlerRegistry \<Rightarrow> error + Metadata \<times> HandlerRegistry" where
  "EventHandler eventClass target st = handler_decorator event eventClass target st"

section \<open>ioc/custom-container.ts\<close>

text \<open>
  The three private maps of \<^verbatim>\<open>CustomContainer\<close>, the allocation counter that numbers the
  objects the container creates (\<^verbatim>\<open>new Token\<close>, \<^verbatim>\<open>new constructor(...)\<close>, the
  factory's object), and the lines written with \<^verbatim>\<open>console.warn\<close>.
\<close>

record CustomContainer =
  services :: "(ident, ServiceDescriptor) jsmap"
  instances :: "(ident, val) jsmap"
  stringToIdentifierMap :: "(string, ident) jsmap"
  nextRef :: nat
  warnings :: "string list"

definition CustomContainer_new :: CustomContainer where
  "CustomContainer_new =
     \<lparr>services = [], instances = [], stringToIdentifierMap = [], nextRef = 0, warnings = []\<rparr>"

text \<open>
  The outcome of a call that may mutate the container: it returns a value, or it throws,
  in both cases leaving a container behind; \<open>Diverge\<close> is a call whose nested
  \<^verbatim>\<open>get\<close> calls go deeper than the fuel allows (a cyclic dependency never returns).
\<close>

datatype 'a result = Return 'a CustomContainer | Throw error CustomContainer | Diverge

definition getCanonicalIdentifier :: "CustomContainer \<Rightarrow> ident \<Rightarrow> ident" where
  "getCanonicalIdentifier c i =
     (case i of
        Str s \<Rightarrow>
          (case Map_get (stringToIdentifierMap c) s of
             Some m \<Rightarrow> if truthy m then m else i
           | None \<Rightarrow> i)
      | _ \<Rightarrow> i)"

text \<open>The last branch of the source, \<^verbatim>\<open>'Unknown'\<close>, needs a value that is neither a
  string, a token nor a class: no \<^verbatim>\<open>ServiceIdentifier\<close> is one.\<close>

fun getIdentifierName :: "ident \<Rightarrow> string" where
  "getIdentifierName (Str s) = s"
| "getIdentifierName (Tok t) = token_name t"
| "getIdentifierName (Class k) = cls_name k"

definition addIdentifierMapping :: "CustomContainer \<Rightarrow> ident \<Rightarrow> ident option \<Rightarrow> CustomContainer" where
  "addIdentifierMapping c i primaryIdentifier =
     (case i of
        Str s \<Rightarrow>
          if \<not> Map_has (stringToIdentifierMap c) s
          then (case (case primaryIdentifier of
                        Some p \<Rightarrow> if truthy p then Some p else None
                      | None \<Rightarrow> None) of
                  Some p \<Rightarrow> c\<lparr>stringToIdentifierMap := Map_set (stringToIdentifierMap c) s p\<rparr>
                | None \<Rightarrow>
                    c\<lparr>stringToIdentifierMap :=
                        Map_set (stringToIdentifierMap c) s (Tok (Token (Alloc (nextRef c)) s)),
                      nextRef := Suc (nextRef c)\<rparr>)
          else c
      | Tok t \<Rightarrow>
          if \<not> Map_has (stringToIdentifierMap c) (token_name t)
          then c\<lparr>stringToIdentifierMap := Map_set (stringToIdentifierMap c) (token_name t) i\<rparr>
          else c
      | Class k \<Rightarrow>
          if \<not> Map_has (stringToIdentifierMap c) (cls_name k)
          then c\<lparr>stringToIdentifierMap := Map_set (stringToIdentifierMap c) (cls_name k) i\<rparr>
          else c)"

definition warn_overwrite :: "CustomContainer \<Rightarrow> ident \<Rightarrow> ident \<Rightarrow> CustomContainer" where
  "warn_overwrite c canonicalIdentifier i =
     (if Map_has (services c) canonicalIdentifier
      then c\<lparr>warnings := warnings c @
             [''Service '' @ [CHR 39] @ getIdentifierName i @ [CHR 39] @ '' already registered. Overwriting.'']\<rparr>
      else c)"

definition registerFactory :: "CustomContainer \<Rightarrow> ident \<Rightarrow> ServiceFactory \<Rightarrow> bool \<Rightarrow> CustomContainer" where
  "registerFactory c i factory sing =
     (let c1 = addIdentifierMapping c i None;
          canonicalIdentifier = getCanonicalIdentifier c1 i;
          c2 = warn_overwrite c1 canonicalIdentifier i
      in c2\<lparr>services := Map_set (services c2) canonicalIdentifier
                           (FactoryServiceDescriptor canonicalIdentifier factory sing),
            instances := Map_delete (instances c2) canonicalIdentifier\<rparr>)"

definition registerConstructor ::
  "CustomContainer \<Rightarrow> ident \<Rightarrow> cls \<Rightarrow> bool \<Rightarrow> ident sparse option \<Rightarrow> CustomContainer" where
  "registerConstructor c i constructor sing canonicalDependencies =
     (let c1 = addIdentifierMapping c i (Some (Class constructor));
          canonicalIdentifier = getCanonicalIdentifier c1 i;
          c2 = warn_overwrite c1 canonicalIdentifier i
      in c2\<lparr>services := Map_set (services c2) canonicalIdentifier
                           (ConstructorServiceDescriptor canonicalIdentifier constructor sing
                              canonicalDependencies),
            instances := Map_delete (instances c2) canonicalIdentifier\<rparr>)"

definition registerInstance :: "CustomContainer \<Rightarrow> ident \<Rightarrow> val \<Rightarrow> CustomContainer" where
  "registerInstance c i inst =
     (let c1 = addIdentifierMapping c i None;
          canonicalIdentifier = getCanonicalIdentifier c1 i;
          c2 = warn_overwrite c1 canonicalIdentifier i
      in c2\<lparr>services := Map_set (services c2) canonicalIdentifier
                           (InstanceServiceDescriptor canonicalIdentifier inst),
            instances := Map_set (instances c2) canonicalIdentifier inst\<rparr>)"

definition has :: "CustomContainer \<Rightarrow> ident \<Rightarrow> bool" where
  "has c i =
     (Map_has (services c) (getCanonicalIdentifier c i)
      \<or> Map_has (stringToIdentifierMap c) (getIdentifierName i))"

definition clear :: "CustomContainer \<Rightarrow> CustomContainer" where
  "clear c = c\<lparr>services := [], instances := [], stringToIdentifierMap := []\<rparr>"

definition getMetadataDependencies :: "Metadata \<Rightarrow> cls \<Rightarrow> ident sparse" where
  "getMetadataDependencies md constructor =
     (let paramDeps = (case param_dependencies md constructor of Some ds \<Rightarrow> ds | None \<Rightarrow> [])
      in if length paramDeps > 0 then paramDeps
         else (case class_dependencies md constructor of
                 Some classDeps \<Rightarrow> classDeps
               | None \<Rightarrow>
                   (let stringDeps =
                          (case string_dependencies md constructor of Some ds \<Rightarrow> ds | None \<Rightarrow> [])
                    in if length stringDeps > 0 then stringDeps else [])))"

definition getDebugInfo :: "CustomContainer \<Rightarrow> string list \<times> nat" where
  "getDebugInfo c = (map getIdentifierName (Map_keys (services c)), length (instances c))"

text \<open>The class \<^verbatim>\<open>Object\<close>: what \<^verbatim>\<open>descriptor.constructor\<close> is on a descriptor that
  has no \<^verbatim>\<open>constructor\<close> field of its own.\<close>

definition Object_class :: cls where
  "Object_class = Cls (Builtin 0) ''Object''"

text \<open>\<^verbatim>\<open>new constructor(...dependencies)\<close>.\<close>

definition construct :: "CustomContainer \<Rightarrow> cls \<Rightarrow> val sparse \<Rightarrow> val result" where
  "construct c constructor dependencies =
     Return (Obj (Alloc (nextRef c)) constructor (spread dependencies))
            (c\<lparr>nextRef := Suc (nextRef c)\<rparr>)"

text \<open>An exception passes through every caller that does not catch it, with the container
  as the failed call left it; no function of the container catches.\<close>

definition and_then :: "'a result \<Rightarrow> ('a \<Rightarrow> CustomContainer \<Rightarrow> 'b result) \<Rightarrow> 'b result" where
  "and_then r f = (case r of Return v c \<Rightarrow> f v c | Throw e c \<Rightarrow> Throw e c | Diverge \<Rightarrow> Diverge)"

definition not_registered :: "ident \<Rightarrow> error" where
  "not_registered i =
     Error (''Service '' @ [CHR 39] @ getIdentifierName i @ [CHR 39] @ '' not registered.'')"

text \<open>
  \<^verbatim>\<open>get\<close>, \<^verbatim>\<open>handleAutoRegistration\<close>, \<^verbatim>\<open>resolveService\<close> and
  \<^verbatim>\<open>resolveDependencies\<close> call each other; \<open>map_get\<close> is the loop of
  \<^verbatim>\<open>canonicalDependencies.map((dep) => this.get(dep))\<close>, left to right, stopping at the
  first \<^verbatim>\<open>get\<close> that throws. The first argument bounds the depth of nested \<^verbatim>\<open>get\<close>
  calls.
\<close>

function get :: "nat \<Rightarrow> Metadata \<Rightarrow> CustomContainer \<Rightarrow> ident \<Rightarrow> val result"
  and handleAutoRegistration :: "nat \<Rightarrow> Metadata \<Rightarrow> CustomContainer \<Rightarrow> ident \<Rightarrow> val option result"
  and resolveService :: "nat \<Rightarrow> Metadata \<Rightarrow> CustomContainer \<Rightarrow> ServiceDescriptor \<Rightarrow> val result"
  and resolveDependencies :: "nat \<Rightarrow> Metadata \<Rightarrow> CustomContainer \<Rightarrow> ident sparse option \<Rightarrow> val sparse result"
  and map_get :: "nat \<Rightarrow> Metadata \<Rightarrow> CustomContainer \<Rightarrow> ident sparse \<Rightarrow> val sparse result"
where
  "get 0 md c i = Diverge"
| "get (Suc n) md c i =
     (let canonicalIdentifier = getCanonicalIdentifier c i in
      case Map_get (instances c) canonicalIdentifier of
        Some cached \<Rightarrow> Return cached c
      | None \<Rightarrow>
          (case Map_get (services c) canonicalIdentifier of
             None \<Rightarrow>
               and_then (handleAutoRegistration n md c i)
                 (\<lambda>autoRegisteredService c1.
                    case autoRegisteredService of
                      Some inst \<Rightarrow>
                        if truthy_val inst then Return inst c1 else Throw (not_registered i) c1
                    | None \<Rightarrow> Throw (not_registered i) c1)
           | Some descriptor \<Rightarrow>
               and_then (resolveService n md c descriptor)
                 (\<lambda>inst c1.
                    Return inst
                      (if singleton descriptor
                       then c1\<lparr>instances := Map_set (instances c1) canonicalIdentifier inst\<rparr>
                       else c1))))"
| "handleAutoRegistration n md c (Class constructorIdentifier) =
     (case injectable_service md constructorIdentifier of
        Some serviceMetadata \<Rightarrow>
          (let sing = im_singleton serviceMetadata;
               serviceId = (if truthy (im_id serviceMetadata) then im_id serviceMetadata
                            else Class constructorIdentifier);
               metadataDependencies = getMetadataDependencies md constructorIdentifier;
               canonicalDependencies = map_sparse (getCanonicalIdentifier c) metadataDependencies;
               autoDescriptor = ConstructorServiceDescriptor serviceId constructorIdentifier sing
                                  (Some canonicalDependencies);
               c1 = c\<lparr>services := Map_set (services c) serviceId autoDescriptor\<rparr>;
               c2 = (if serviceId \<noteq> Class constructorIdentifier
                     then c1\<lparr>services := Map_set (services c1) (Class constructorIdentifier) autoDescriptor\<rparr>
                     else c1)
           in and_then (resolveService n md c2 autoDescriptor)
                (\<lambda>inst c3.
                   Return (Some inst)
                     (if sing
                      then (let c4 = c3\<lparr>instances := Map_set (instances c3) serviceId inst\<rparr>
                            in if serviceId \<noteq> Class constructorIdentifier
                               then c4\<lparr>instances := Map_set (instances c4) (Class constructorIdentifier) inst\<rparr>
                               else c4)
                      else c3)))
      | None \<Rightarrow> Return None c)"
| "handleAutoRegistration n md c (Str s) = Return None c"
| "handleAutoRegistration n md c (Tok t) = Return None c"
| "resolveService n md c (InstanceServiceDescriptor i inst) =
     (if inst \<noteq> Undefined then Return inst c
      else and_then (resolveDependencies n md c None)
             (\<lambda>dependencies c1. construct c1 Object_class dependencies))"
| "resolveService n md c (FactoryServiceDescriptor i factory sing) =
     Return (factory (nextRef c)) (c\<lparr>nextRef := Suc (nextRef c)\<rparr>)"
| "resolveService n md c (ConstructorServiceDescriptor i constructor sing canonicalDependencies) =
     and_then (resolveDependencies n md c canonicalDependencies)
       (\<lambda>dependencies c1. construct c1 constructor dependencies)"
| "resolveDependencies n md c None = Return [] c"
| "resolveDependencies n md c (Some canonicalDependencies) =
     (if length canonicalDependencies = 0 then Return [] c
      else map_get n md c canonicalDependencies)"
| "map_get n md c [] = Return [] c"
| "map_get n md c (None # deps) =
     and_then (map_get n md c deps) (\<lambda>rest c1. Return (None # rest) c1)"
| "map_get n md c (Some depIdentifier # deps) =
     and_then (get n md c depIdentifier)
       (\<lambda>v c1. and_then (map_get n md c1 deps) (\<lambda>rest c2. Return (Some v # rest) c2))"
     apply pat_completeness
  apply simp_all
  done

termination
  by (relation "measures [
        case_sum (case_sum (\<lambda>(n, _). n) (\<lambda>(n, _). n))
                 (case_sum (\<lambda>(n, _). n) (case_sum (\<lambda>(n, _). n) (\<lambda>(n, _). n))),
        case_sum (case_sum (\<lambda>_. 0) (\<lambda>_. 4))
                 (case_sum (\<lambda>_. 3) (case_sum (\<lambda>_. 2) (\<lambda>_. Suc 0))),
        case_sum (case_sum (\<lambda>_. 0) (\<lambda>_. 0))
                 (case_sum (\<lambda>_. 0) (case_sum (\<lambda>_. 0) (\<lambda>(n, md, c, ds). length ds)))]")
     simp_all

section \<open>ioc/service-container.ts\<close>

text \<open>
  \<^verbatim>\<open>CustomServiceContainer\<close> has one field, the \<^verbatim>\<open>CustomContainer\<close> it creates, and
  passes every call through to it; its state is that of the inner container.
  \<^verbatim>\<open>registerByClass\<close> is the one method with a body of its own.
\<close>

definition registerValue :: "CustomContainer \<Rightarrow> ident \<Rightarrow> val \<Rightarrow> CustomContainer" where
  "registerValue c i inst = registerInstance c i inst"

definition registerByClass :: "Metadata \<Rightarrow> CustomContainer \<Rightarrow> cls \<Rightarrow> bool \<Rightarrow> CustomContainer" where
  "registerByClass md c constructor sing =
     (let metadataDependencies = getMetadataDependencies md constructor;
          canonicalDependencies = map_sparse (getCanonicalIdentifier c) metadataDependencies
      in registerConstructor c (Class constructor) constructor sing (Some canonicalDependencies))"

section \<open>tokens.ts\<close>

definition EVENT_DISPATCHER_TOKEN :: ident where
  "EVENT_DISPATCHER_TOKEN = Tok (Token (Builtin 1) ''IEventDispatcher'')"

definition COMMAND_DISPATCHER_TOKEN :: ident where
  "COMMAND_DISPATCHER_TOKEN = Tok (Token (Builtin 2) ''ICommandDispatcher'')"

definition QUERY_DISPATCHER_TOKEN :: ident where
  "QUERY_DISPATCHER_TOKEN = Tok (Token (Builtin 3) ''IQueryDispatcher'')"

definition ISERVICECONTAINER_TOKEN :: ident where
  "ISERVICECONTAINER_TOKEN = Tok (Token (Builtin 4) ''IServiceContainer'')"

section \<open>The dispatchers\<close>

text \<open>
  A command, query or event object: the name of its class
  (\<^verbatim>\<open>message.constructor.name\<close>) and its content.
\<close>

datatype message = Message (constructor_name: string) (content: string)

text \<open>
  \<^verbatim>\<open>handler.handle(message)\<close> is application code: a function of the resolved handler
  object and the message, whose promise rejects (\<open>Inl\<close>) or fulfils (\<open>Inr\<close>). On a
  resolved value that has no \<^verbatim>\<open>handle\<close> method the call throws a \<^verbatim>\<open>TypeError\<close>, which
  is a rejection as well.
\<close>

type_synonym handle = "val \<Rightarrow> message \<Rightarrow> error + val"

text \<open>dispatchers/command-dispatcher.ts. The dispatcher's \<^verbatim>\<open>container\<close> field is a
  reference to a container that others mutate too: the container is passed to
  \<^verbatim>\<open>dispatch\<close> and comes back in its result.\<close>

record CommandDispatcher =
  command_handlers :: "(string, ident) jsmap"

definition CommandDispatcher_registerHandler ::
  "CommandDispatcher \<Rightarrow> string \<Rightarrow> ident \<Rightarrow> error + CommandDispatcher" where
  "CommandDispatcher_registerHandler d commandName handlerIdentifier =
     (if Map_has (command_handlers d) commandName
      then Inl (Error (''Command handler for '' @ [CHR 39] @ commandName @ [CHR 39] @ '' already registered.''))
      else Inr (d\<lparr>command_handlers := Map_set (command_handlers d) commandName handlerIdentifier\<rparr>))"

definition invoke_handle :: "handle \<Rightarrow> message \<Rightarrow> val \<Rightarrow> CustomContainer \<Rightarrow> val result" where
  "invoke_handle h m handler c = (case h handler m of Inl e \<Rightarrow> Throw e c | Inr v \<Rightarrow> Return v c)"

definition CommandDispatcher_dispatch ::
  "nat \<Rightarrow> Metadata \<Rightarrow> handle \<Rightarrow> CommandDispatcher \<Rightarrow> CustomContainer \<Rightarrow> message \<Rightarrow> val result" where
  "CommandDispatcher_dispatch n md h d c cmd =
     (let commandName = constructor_name cmd in
      case (case Map_get (command_handlers d) commandName of
              Some handlerIdentifier \<Rightarrow> if truthy handlerIdentifier then Some handlerIdentifier else None
            | None \<Rightarrow> None) of
        None \<Rightarrow>
          Throw (Error (''No handler registered for command '' @ [CHR 39] @ commandName @ [CHR 39] @ ''.'')) c
      | Some handlerIdentifier \<Rightarrow> and_then (get n md c handlerIdentifier) (invoke_handle h cmd))"

text \<open>dispatchers/query-dispatcher.ts.\<close>

record QueryDispatcher =
  query_handlers :: "(string, ident) jsmap"

definition QueryDispatcher_registerHandler ::
  "QueryDispatcher \<Rightarrow> string \<Rightarrow> ident \<Rightarrow> error + QueryDispatcher" where
  "QueryDispatcher_registerHandler d queryName handlerIdentifier =
     (if Map_has (query_handlers d) queryName
      then Inl (Error (''Query handler for '' @ [CHR 39] @ queryName @ [CHR 39] @ '' already registered.''))
      else Inr (d\<lparr>query_handlers := Map_set (query_handlers d) queryName handlerIdentifier\<rparr>))"

definition QueryDispatcher_dispatch ::
  "nat \<Rightarrow> Metadata \<Rightarrow> handle \<Rightarrow> QueryDispatcher \<Rightarrow> CustomContainer \<Rightarrow> message \<Rightarrow> val result" where
  "QueryDispatcher_dispatch n md h d c qry =
     (let queryName = constructor_name qry in
      case (case Map_get (query_handlers d) queryName of
              Some handlerIdentifier \<Rightarrow> if truthy handlerIdentifier then Some handlerIdentifier else None
            | None \<Rightarrow> None) of
        None \<Rightarrow>
          Throw (Error (''No handler registered for query '' @ [CHR 39] @ queryName @ [CHR 39] @ ''.'')) c
      | Some handlerIdentifier \<Rightarrow> and_then (get n md c handlerIdentifier) (invoke_handle h qry))"

text \<open>dispatchers/event-dispatcher.ts.\<close>

record EventDispatcher =
  event_handlers :: "(string, ident list) jsmap"

definition EventDispatcher_registerHandler ::
  "EventDispatcher \<Rightarrow> string \<Rightarrow> ident \<Rightarrow> EventDispatcher" where
  "EventDispatcher_registerHandler d eventName handlerIdentifier =
     (let existingHandlers = (case Map_get (event_handlers d) eventName of Some hs \<Rightarrow> hs | None \<Rightarrow> [])
      in d\<lparr>event_handlers :=
             Map_set (event_handlers d) eventName (existingHandlers @ [handlerIdentifier])\<rparr>)"

text \<open>
  What \<^verbatim>\<open>dispatch\<close> does, in the order it does it. For the event at a position of the
  list and a handler identifier: \<open>Invoked\<close>, the handler was resolved and
  \<^verbatim>\<open>handler.handle(event)\<close> was called, with the way the promise it returned settles;
  \<open>Unresolved\<close>, \<^verbatim>\<open>container.get(identifier)\<close> threw inside the async callback, whose
  promise is rejected with that error, and \<^verbatim>\<open>handle\<close> was not called. \<open>Awaited\<close>:
  \<^verbatim>\<open>await Promise.all(promises)\<close> returned for the event at the position, which it does
  once every promise of the event is fulfilled.
\<close>

datatype trace_entry =
    Invoked nat ident "error + val"
  | Unresolved nat ident error
  | Awaited nat

fun position :: "trace_entry \<Rightarrow> nat" where
  "position (Invoked p i out) = p"
| "position (Unresolved p i e) = p"
| "position (Awaited p) = p"

fun rejection :: "trace_entry \<Rightarrow> error option" where
  "rejection (Invoked p i (Inl e)) = Some e"
| "rejection (Invoked p i (Inr v)) = None"
| "rejection (Unresolved p i e) = Some e"
| "rejection (Awaited p) = None"

text \<open>
  \<^verbatim>\<open>handlerIdentifiers.map(async (identifier) => ...)\<close>: the callback has no
  \<^verbatim>\<open>await\<close>, so each call resolves its handler and calls \<^verbatim>\<open>handle\<close> before the next
  one starts, and an exception in one leaves a rejected promise and does not stop the
  \<^verbatim>\<open>map\<close>. \<open>None\<close> is a \<^verbatim>\<open>get\<close> that does not return.
\<close>

fun start_handlers ::
  "nat \<Rightarrow> Metadata \<Rightarrow> handle \<Rightarrow> CustomContainer \<Rightarrow> nat \<Rightarrow> message \<Rightarrow> ident list
     \<Rightarrow> (trace_entry list \<times> CustomContainer) option" where
  "start_handlers n md h c p ev [] = Some ([], c)"
| "start_handlers n md h c p ev (i # rest) =
     (case get n md c i of
        Diverge \<Rightarrow> None
      | Throw e c1 \<Rightarrow>
          (case start_handlers n md h c1 p ev rest of
             None \<Rightarrow> None
           | Some (tr, c2) \<Rightarrow> Some (Unresolved p i e # tr, c2))
      | Return handler c1 \<Rightarrow>
          (case start_handlers n md h c1 p ev rest of
             None \<Rightarrow> None
           | Some (tr, c2) \<Rightarrow> Some (Invoked p i (h handler ev) # tr, c2)))"

text \<open>
  The result of \<^verbatim>\<open>EventDispatcher.dispatch\<close>: its promise is fulfilled, or it is
  rejected. \<^verbatim>\<open>Promise.all\<close> rejects with the reason of the promise that rejects first in
  time, which the settled promises do not tell: \<open>Rejected\<close> carries the reasons of all
  the rejected promises of the event, in handler order, and the reason of the dispatch is
  one of them.
\<close>

datatype dispatch_result =
    Fulfilled "trace_entry list" CustomContainer
  | Rejected "error list" "trace_entry list" CustomContainer
  | Diverged

definition rejections :: "trace_entry list \<Rightarrow> error list" where
  "rejections tr = List.map_filter rejection tr"

fun after_trace :: "trace_entry list \<Rightarrow> dispatch_result \<Rightarrow> dispatch_result" where
  "after_trace tr (Fulfilled tr2 c) = Fulfilled (tr @ tr2) c"
| "after_trace tr (Rejected es tr2 c) = Rejected es (tr @ tr2) c"
| "after_trace tr Diverged = Diverged"

text \<open>The \<^verbatim>\<open>for (const event of events)\<close> loop, from the event at position \<open>p\<close> on.\<close>

fun dispatch_from ::
  "nat \<Rightarrow> Metadata \<Rightarrow> handle \<Rightarrow> EventDispatcher \<Rightarrow> CustomContainer \<Rightarrow> nat \<Rightarrow> message list
     \<Rightarrow> dispatch_result" where
  "dispatch_from n md h d c p [] = Fulfilled [] c"
| "dispatch_from n md h d c p (ev # evs) =
     (let eventName = constructor_name ev;
          handlerIdentifiers = (case Map_get (event_handlers d) eventName of Some hs \<Rightarrow> hs | None \<Rightarrow> [])
      in case start_handlers n md h c p ev handlerIdentifiers of
           None \<Rightarrow> Diverged
         | Some (promises, c1) \<Rightarrow>
             if rejections promises = []
             then after_trace (promises @ [Awaited p]) (dispatch_from n md h d c1 (Suc p) evs)
             else Rejected (rejections promises) promises c1)"

definition EventDispatcher_dispatch ::
  "nat \<Rightarrow> Metadata \<Rightarrow> handle \<Rightarrow> EventDispatcher \<Rightarrow> CustomContainer \<Rightarrow> message list
     \<Rightarrow> dispatch_result" where
  "EventDispatcher_dispatch n md h d c events = dispatch_from n md h d c 0 events"

section \<open>tmick.ts\<close>

text \<open>
  The fields of a \<^verbatim>\<open>Tmick\<close>. A dispatcher field is \<open>None\<close> while it holds
  \<^verbatim>\<open>null\<close>; afterwards it holds the object the container handed out, together with the
  state of that object, which the orchestrator alone changes. The handler registry is not
  a field: it is static, one for the process, and the methods that use it take it and
  give it back.
\<close>

record Tmick =
  container :: CustomContainer
  commandDispatcher :: "(val \<times> CommandDispatcher) option"
  queryDispatcher :: "(val \<times> QueryDispatcher) option"
  eventDispatcher :: "(val \<times> EventDispatcher) option"
  initialized :: bool

definition Tmick_new :: Tmick where
  "Tmick_new =
     \<lparr>container = registerValue CustomContainer_new ISERVICECONTAINER_TOKEN ContainerSelf,
      commandDispatcher = None, queryDispatcher = None, eventDispatcher = None,
      initialized = False\<rparr>"

text \<open>The registration methods of the orchestrator pass through to its container;
  \<^verbatim>\<open>registerConstructor\<close> first maps the dependencies to their canonical identifiers.\<close>

definition Tmick_registerFactory :: "Tmick \<Rightarrow> ident \<Rightarrow> ServiceFactory \<Rightarrow> bool \<Rightarrow> Tmick" where
  "Tmick_registerFactory t i factory sing =
     t\<lparr>container := registerFactory (container t) i factory sing\<rparr>"

definition Tmick_registerValue :: "Tmick \<Rightarrow> ident \<Rightarrow> val \<Rightarrow> Tmick" where
  "Tmick_registerValue t i inst = t\<lparr>container := registerValue (container t) i inst\<rparr>"

definition Tmick_registerConstructor :: "Tmick \<Rightarrow> ident \<Rightarrow> cls \<Rightarrow> bool \<Rightarrow> ident sparse \<Rightarrow> Tmick" where
  "Tmick_registerConstructor t i constructor sing dependencies =
     (let canonicalDependencies = map_sparse (getCanonicalIdentifier (container t)) dependencies
      in t\<lparr>container :=
             registerConstructor (container t) i constructor sing (Some canonicalDependencies)\<rparr>)"

definition Tmick_registerByClass :: "Metadata \<Rightarrow> Tmick \<Rightarrow> cls \<Rightarrow> bool \<Rightarrow> Tmick" where
  "Tmick_registerByClass md t constructor sing =
     t\<lparr>container := registerByClass md (container t) constructor sing\<rparr>"

definition not_initialized :: error where
  "not_initialized = Error ''Tmick Framework not initialized. Call initialize() first.''"

definition null_dispatch :: error where
  "null_dispatch = TypeError ''Cannot read properties of null (reading 'dispatch')''"

definition null_registerHandler :: error where
  "null_registerHandler = TypeError ''Cannot read properties of null (reading 'registerHandler')''"

text \<open>The dispatcher classes, and what their decorators (\<^verbatim>\<open>@Injectable() @Singleton()\<close> on
  the class, \<^verbatim>\<open>@Inject(ISERVICECONTAINER_TOKEN)\<close> on the first constructor parameter) do
  when the module of the class is loaded.\<close>

definition CommandDispatcher_class :: cls where
  "CommandDispatcher_class = Cls (Builtin 5) ''CommandDispatcher''"

definition QueryDispatcher_class :: cls where
  "QueryDispatcher_class = Cls (Builtin 6) ''QueryDispatcher''"

definition EventDispatcher_class :: cls where
  "EventDispatcher_class = Cls (Builtin 7) ''EventDispatcher''"

definition decorate_dispatcher ::
  "cls \<Rightarrow> Metadata \<times> HandlerRegistry \<Rightarrow> Metadata \<times> HandlerRegistry" where
  "decorate_dispatcher k st =
     Injectable (Options None) k (Singleton k (Inject ISERVICECONTAINER_TOKEN k 0 (fst st)), snd st)"

definition framework_loaded :: "Metadata \<times> HandlerRegistry" where
  "framework_loaded =
     decorate_dispatcher EventDispatcher_class
       (decorate_dispatcher QueryDispatcher_class
          (decorate_dispatcher CommandDispatcher_class (Metadata_empty, HandlerRegistry_initial)))"

text \<open>The body of the loop of \<^verbatim>\<open>autoScanAndRegisters\<close> for one service class, and
  the loop with its set of processed classes.\<close>

definition scan_class :: "Metadata \<Rightarrow> CustomContainer \<Rightarrow> cls \<Rightarrow> CustomContainer" where
  "scan_class md c serviceClass =
     (let injectableMetadata = injectable_service md serviceClass;
          sing = (case injectableMetadata of Some m \<Rightarrow> im_singleton m | None \<Rightarrow> True);
          metadataDependencies = getMetadataDependencies md serviceClass;
          canonicalDependencies = map_sparse (getCanonicalIdentifier c) metadataDependencies;
          c1 = registerConstructor c (Class serviceClass) serviceClass sing (Some canonicalDependencies)
      in case injectableMetadata of
           Some m \<Rightarrow>
             if truthy (im_id m) \<and> im_id m \<noteq> Class serviceClass
             then registerConstructor c1 (im_id m) serviceClass sing (Some canonicalDependencies)
             else c1
         | None \<Rightarrow> c1)"

fun scan_classes :: "Metadata \<Rightarrow> CustomContainer \<Rightarrow> cls list \<Rightarrow> cls list \<Rightarrow> CustomContainer" where
  "scan_classes md c processedClasses [] = c"
| "scan_classes md c processedClasses (serviceClass # rest) =
     (if serviceClass \<in> set processedClasses then scan_classes md c processedClasses rest
      else scan_classes md (scan_class md c serviceClass) (processedClasses @ [serviceClass]) rest)"

text \<open>
  The outcome of \<^verbatim>\<open>autoScanAndRegisters\<close>: it returns, or it throws (a \<^verbatim>\<open>get\<close> of a
  dispatcher or a \<^verbatim>\<open>registerHandler\<close> threw), in both cases with the orchestrator as the
  call left it.
\<close>

datatype scan_result = Scanned Tmick | ScanThrew error Tmick | ScanDiverged

text \<open>
  The object \<open>v\<close> that \<^verbatim>\<open>get\<close> returned is assigned to a dispatcher field. If the field
  held that object already, its state is the one the field has; an object the orchestrator
  has not seen is a dispatcher as its constructor leaves it.
\<close>

definition held :: "(val \<times> 'd) option \<Rightarrow> val \<Rightarrow> 'd \<Rightarrow> val \<times> 'd" where
  "held field v fresh =
     (case field of
        Some (w, d) \<Rightarrow> if w = v then (v, d) else (v, fresh)
      | None \<Rightarrow> (v, fresh))"

text \<open>The \<^verbatim>\<open>forEach\<close> over the registrations, which configures the dispatchers.\<close>

fun wire :: "HandlerRegistration list \<Rightarrow> Tmick \<Rightarrow> scan_result" where
  "wire [] t = Scanned t"
| "wire (registration # rest) t =
     (case handlerType registration of
        command \<Rightarrow>
          (case commandDispatcher t of
             None \<Rightarrow> ScanThrew null_registerHandler t
           | Some (v, d) \<Rightarrow>
               (case CommandDispatcher_registerHandler d (targetType registration)
                       (Class (handlerClass registration)) of
                  Inl e \<Rightarrow> ScanThrew e t
                | Inr d1 \<Rightarrow> wire rest (t\<lparr>commandDispatcher := Some (v, d1)\<rparr>)))
      | query \<Rightarrow>
          (case queryDispatcher t of
             None \<Rightarrow> ScanThrew null_registerHandler t
           | Some (v, d) \<Rightarrow>
               (case QueryDispatcher_registerHandler d (targetType registration)
                       (Class (handlerClass registration)) of
                  Inl e \<Rightarrow> ScanThrew e t
                | Inr d1 \<Rightarrow> wire rest (t\<lparr>queryDispatcher := Some (v, d1)\<rparr>)))
      | event \<Rightarrow>
          (case eventDispatcher t of
             None \<Rightarrow> ScanThrew null_registerHandler t
           | Some (v, d) \<Rightarrow>
               wire rest
                 (t\<lparr>eventDispatcher :=
                      Some (v, EventDispatcher_registerHandler d (targetType registration)
                                 (Class (handlerClass registration)))\<rparr>)))"

definition autoScanAndRegisters :: "nat \<Rightarrow> Metadata \<Rightarrow> HandlerRegistry \<Rightarrow> Tmick \<Rightarrow> scan_result" where
  "autoScanAndRegisters n md r t =
     (let allServiceClasses = getServiceClasses r;
          c1 = scan_classes md (container t) [] allServiceClasses
      in case get n md c1 (Class CommandDispatcher_class) of
           Diverge \<Rightarrow> ScanDiverged
         | Throw e c2 \<Rightarrow> ScanThrew e (t\<lparr>container := c2\<rparr>)
         | Return cd c2 \<Rightarrow>
             (let t2 = t\<lparr>container := c2,
                         commandDispatcher :=
                           Some (held (commandDispatcher t) cd \<lparr>command_handlers = []\<rparr>)\<rparr>
              in case get n md c2 (Class QueryDispatcher_class) of
                   Diverge \<Rightarrow> ScanDiverged
                 | Throw e c3 \<Rightarrow> ScanThrew e (t2\<lparr>container := c3\<rparr>)
                 | Return qd c3 \<Rightarrow>
                     (let t3 = t2\<lparr>container := c3,
                                  queryDispatcher :=
                                    Some (held (queryDispatcher t) qd \<lparr>query_handlers = []\<rparr>)\<rparr>
                      in case get n md c3 (Class EventDispatcher_class) of
                           Diverge \<Rightarrow> ScanDiverged
                         | Throw e c4 \<Rightarrow> ScanThrew e (t3\<lparr>container := c4\<rparr>)
                         | Return ed c4 \<Rightarrow>
                             (let c5 = registerValue c4 COMMAND_DISPATCHER_TOKEN cd;
                                  c6 = registerValue c5 QUERY_DISPATCHER_TOKEN qd;
                                  c7 = registerValue c6 EVENT_DISPATCHER_TOKEN ed;
                                  t4 = t3\<lparr>container := c7,
                                          eventDispatcher :=
                                            Some (held (eventDispatcher t) ed \<lparr>event_handlers = []\<rparr>)\<rparr>
                              in wire (getRegistrations r) t4))))"

definition initialize :: "Tmick \<Rightarrow> error + Tmick" where
  "initialize t =
     (if initialized t then Inl (Error ''Tmick Framework already initialized.'')
      else Inr (t\<lparr>initialized := True\<rparr>))"

text \<open>The methods below change the orchestrator through its container only, which their
  result carries.\<close>

definition Tmick_get :: "nat \<Rightarrow> Metadata \<Rightarrow> Tmick \<Rightarrow> ident \<Rightarrow> val result" where
  "Tmick_get n md t i =
     (if \<not> initialized t then Throw not_initialized (container t)
      else get n md (container t) i)"

definition executeCommand :: "nat \<Rightarrow> Metadata \<Rightarrow> handle \<Rightarrow> Tmick \<Rightarrow> message \<Rightarrow> val result" where
  "executeCommand n md h t cmd =
     (if \<not> initialized t then Throw not_initialized (container t)
      else (case commandDispatcher t of
              None \<Rightarrow> Throw null_dispatch (container t)
            | Some (v, d) \<Rightarrow> CommandDispatcher_dispatch n md h d (container t) cmd))"

definition executeQuery :: "nat \<Rightarrow> Metadata \<Rightarrow> handle \<Rightarrow> Tmick \<Rightarrow> message \<Rightarrow> val result" where
  "executeQuery n md h t qry =
     (if \<not> initialized t then Throw not_initialized (container t)
      else (case queryDispatcher t of
              None \<Rightarrow> Throw null_dispatch (container t)
            | Some (v, d) \<Rightarrow> QueryDispatcher_dispatch n md h d (container t) qry))"

definition dispatchEvents :: "nat \<Rightarrow> Metadata \<Rightarrow> handle \<Rightarrow> Tmick \<Rightarrow> message list \<Rightarrow> dispatch_result" where
  "dispatchEvents n md h t events =
     (if \<not> initialized t then Rejected [not_initialized] [] (container t)
      else (case eventDispatcher t of
              None \<Rightarrow> Rejected [null_dispatch] [] (container t)
            | Some (v, d) \<Rightarrow> EventDispatcher_dispatch n md h d (container t) events))"

definition getContainer :: "Tmick \<Rightarrow> error + CustomContainer" where
  "getContainer t = (if \<not> initialized t then Inl not_initialized else Inr (container t))"

text \<open>What \<^verbatim>\<open>getDebugInfo\<close> returns: the registered services, the handler registrations,
  the names of the service classes, the flag, and the container's own debug information.\<close>

record DebugInfo =
  registeredServices :: "string list"
  handlerRegistrations :: "HandlerRegistration list"
  serviceClassesRegisteredForScan :: "string list"
  debug_initialized :: bool
  containerInfo :: "string list \<times> nat"

definition Tmick_getDebugInfo :: "HandlerRegistry \<Rightarrow> Tmick \<Rightarrow> DebugInfo" where
  "Tmick_getDebugInfo r t =
     \<lparr>registeredServices = fst (getDebugInfo (container t)),
      handlerRegistrations = getRegistrations r,
      serviceClassesRegisteredForScan = map cls_name (getServiceClasses r),
      debug_initialized = initialized t,
      containerInfo = getDebugInfo (container t)\<rparr>"

definition dispose :: "HandlerRegistry \<Rightarrow> Tmick \<Rightarrow> HandlerRegistry \<times> Tmick" where
  "dispose r t =
     (HandlerRegistry_clear r, t\<lparr>container := clear (container t), initialized := False\<rparr>)"

section \<open>Notions used to state the properties\<close>

text \<open>\<open>leaves r P\<close>: if the call returned or threw, the container it left satisfies \<open>P\<close>.\<close>

definition leaves :: "'a result \<Rightarrow> (CustomContainer \<Rightarrow> bool) \<Rightarrow> bool" where
  "leaves r P = (case r of Return v c \<Rightarrow> P c | Throw e c \<Rightarrow> P c | Diverge \<Rightarrow> True)"

text \<open>\<open>frame c c'\<close>: from \<open>c\<close> to \<open>c'\<close> the table of names is the same and the allocation
  counter has not gone back.\<close>

definition frame :: "CustomContainer \<Rightarrow> CustomContainer \<Rightarrow> bool" where
  "frame c c' = (stringToIdentifierMap c' = stringToIdentifierMap c \<and> nextRef c \<le> nextRef c')"

text \<open>
  Every class for which \<^verbatim>\<open>Reflect.getMetadata\<close> finds \<^verbatim>\<open>cqrs:injectable-service\<close>
  metadata, its own or inherited, has a descriptor under its constructor, as it has after the orchestrator's scan; the fallback of \<^verbatim>\<open>get\<close>,
  \<^verbatim>\<open>handleAutoRegistration\<close>, then registers nothing.
\<close>

definition injectables_registered :: "Metadata \<Rightarrow> CustomContainer \<Rightarrow> bool" where
  "injectables_registered md c =
     (\<forall>k. injectable_service md k \<noteq> None \<longrightarrow> Map_has (services c) (Class k))"

text \<open>\<open>keeps c c'\<close>: from \<open>c\<close> to \<open>c'\<close> the descriptors are the same, and a cache entry
  differs only under a key whose descriptor is a singleton.\<close>

definition keeps :: "CustomContainer \<Rightarrow> CustomContainer \<Rightarrow> bool" where
  "keeps c c' =
     (services c' = services c
      \<and> (\<forall>k. Map_get (instances c') k \<noteq> Map_get (instances c) k \<longrightarrow>
             (\<exists>d. Map_get (services c) k = Some d \<and> singleton d)))"

text \<open>The array without its holes.\<close>

definition declared :: "'a sparse \<Rightarrow> 'a sparse" where
  "declared xs = filter (\<lambda>x. x \<noteq> None) xs"

text \<open>The value a call returned, if it returned.\<close>

fun returned :: "'a result \<Rightarrow> 'a option" where
  "returned (Return v c) = Some v"
| "returned (Throw e c) = None"
| "returned Diverge = None"

text \<open>What a dispatch did, and the reasons one of which it was rejected with.\<close>

fun trace_of :: "dispatch_result \<Rightarrow> trace_entry list" where
  "trace_of (Fulfilled tr c) = tr"
| "trace_of (Rejected es tr c) = tr"
| "trace_of Diverged = []"

fun reasons_of :: "dispatch_result \<Rightarrow> error list" where
  "reasons_of (Fulfilled tr c) = []"
| "reasons_of (Rejected es tr c) = es"
| "reasons_of Diverged = []"

text \<open>
  \<open>in_order p tr\<close>: the trace is the promises of the event at position \<open>p\<close>, then the
  end of the wait for them, then the promises of the event at \<open>p + 1\<close>, then the end of
  the wait for those, and so on; it may stop anywhere.
\<close>

fun in_order :: "nat \<Rightarrow> trace_entry list \<Rightarrow> bool" where
  "in_order p [] = True"
| "in_order p (Awaited q # tr) = (q = p \<and> in_order (Suc p) tr)"
| "in_order p (Invoked q i out # tr) = (q = p \<and> in_order p tr)"
| "in_order p (Unresolved q i e # tr) = (q = p \<and> in_order p tr)"

text \<open>The handler identifiers the dispatcher has for an event.\<close>

definition handlers_for :: "EventDispatcher \<Rightarrow> message \<Rightarrow> ident list" where
  "handlers_for d ev =
     (case Map_get (event_handlers d) (constructor_name ev) of Some hs \<Rightarrow> hs | None \<Rightarrow> [])"

text \<open>An entry of the \<^verbatim>\<open>map\<close> over the handlers of the event at position \<open>p\<close>, for one
  of the identifiers \<open>ids\<close>: a call of \<^verbatim>\<open>handle\<close> on the event, or a failed \<^verbatim>\<open>get\<close>.\<close>

fun started :: "handle \<Rightarrow> nat \<Rightarrow> message \<Rightarrow> ident list \<Rightarrow> trace_entry \<Rightarrow> bool" where
  "started h p ev ids (Invoked q i out) = (q = p \<and> i \<in> set ids \<and> (\<exists>handler. out = h handler ev))"
| "started h p ev ids (Unresolved q i e) = (q = p \<and> i \<in> set ids)"
| "started h p ev ids (Awaited q) = False"

text \<open>The identifiers whose handler was called for the event at position \<open>q\<close>, in the
  order of the calls.\<close>

fun invoked_at :: "nat \<Rightarrow> trace_entry list \<Rightarrow> ident list" where
  "invoked_at q [] = []"
| "invoked_at q (Invoked p i out # tr) = (if p = q then i # invoked_at q tr else invoked_at q tr)"
| "invoked_at q (Unresolved p i e # tr) = invoked_at q tr"
| "invoked_at q (Awaited p # tr) = invoked_at q tr"

text \<open>Every key of the instance cache has a descriptor: so it is in a new container, and
  the registrations and \<^verbatim>\<open>get\<close> keep it so.\<close>

definition cache_within_services :: "CustomContainer \<Rightarrow> bool" where
  "cache_within_services c = (\<forall>k. Map_has (instances c) k \<longrightarrow> Map_has (services c) k)"

text \<open>\<open>grows c c'\<close>: every key with a descriptor in \<open>c\<close> has one in \<open>c'\<close>, and in \<open>c'\<close>
  every key of the cache has a descriptor.\<close>

definition grows :: "CustomContainer \<Rightarrow> CustomContainer \<Rightarrow> bool" where
  "grows c c' =
     ((\<forall>k. Map_has (services c) k \<longrightarrow> Map_has (services c') k) \<and> cache_within_services c')"

section \<open>Facts about the Map model\<close>

lemma Map_get_set: "Map_get (Map_set m k v) k' = (if k' = k then Some v else Map_get m k')"
  by (simp add: Map_get_def Map_set_def update_conv')

lemma Map_has_set: "Map_has (Map_set m k v) k' = (k' = k \<or> Map_has m k')"
  by (simp add: Map_has_def Map_set_def update_conv')

lemma Map_get_delete: "Map_get (Map_delete m k) k' = (if k' = k then None else Map_get m k')"
  by (simp add: Map_get_def Map_delete_def delete_conv')

lemma Map_has_get: "Map_has m k = (Map_get m k \<noteq> None)"
  by (simp add: Map_has_def Map_get_def)

lemma registerServiceClass_maps:
  "commandHandlersMap (registerServiceClass r c) = commandHandlersMap r"
  "queryHandlersMap (registerServiceClass r c) = queryHandlersMap r"
  "eventHandlersMap (registerServiceClass r c) = eventHandlersMap r"
  by (simp_all add: registerServiceClass_def)

lemmas container_eval =
  registerConstructor_def registerFactory_def registerInstance_def addIdentifierMapping_def
  getCanonicalIdentifier_def warn_overwrite_def CustomContainer_new_def Map_has_def Map_get_def
  Map_set_def Map_delete_def Let_def construct_def spread_def

section \<open>What a resolution leaves behind\<close>

lemma and_then_simps [simp]:
  "and_then (Return v c) f = f v c"
  "and_then (Throw e c) f = Throw e c"
  "and_then Diverge f = Diverge"
  by (simp_all add: and_then_def)

lemma leaves_simps [simp]:
  "leaves (Return v c) P = P c"
  "leaves (Throw e c) P = P c"
  "leaves Diverge P = True"
  by (simp_all add: leaves_def)

lemma leaves_and_then:
  assumes "leaves r P"
    and "\<And>v c. P c \<Longrightarrow> leaves (f v c) Q"
    and "\<And>c. P c \<Longrightarrow> Q c"
  shows "leaves (and_then r f) Q"
  using assms by (cases r) simp_all

lemma frame_refl [simp]: "frame c c"
  by (simp add: frame_def)

lemma frame_trans: "frame a b \<Longrightarrow> frame b c \<Longrightarrow> frame a c"
  by (simp add: frame_def)

lemma frame_alloc: "frame a b \<Longrightarrow> frame a (b\<lparr>nextRef := Suc (nextRef b)\<rparr>)"
  by (simp add: frame_def)

lemma frame_instances: "frame a b \<Longrightarrow> frame a (b\<lparr>instances := m\<rparr>)"
  by (simp add: frame_def)

lemma frame_services: "frame a b \<Longrightarrow> frame (a\<lparr>services := m\<rparr>) b"
  by (simp add: frame_def)

lemma construct_frame: "frame a c \<Longrightarrow> leaves (construct c k deps) (frame a)"
  by (simp add: construct_def frame_alloc)

lemma map_get_frame:
  assumes get: "\<And>c i. leaves (get n md c i) (frame c)"
  shows "leaves (map_get n md c xs) (frame c)"
proof (induction xs arbitrary: c)
  case Nil
  show ?case by simp
next
  case (Cons x xs)
  show ?case
  proof (cases x)
    case None
    have "leaves (and_then (map_get n md c xs) (\<lambda>rest c1. Return (None # rest) c1)) (frame c)"
      by (rule leaves_and_then [OF Cons.IH]) simp_all
    with None show ?thesis by simp
  next
    case (Some d)
    have "leaves (and_then (get n md c d)
             (\<lambda>v c1. and_then (map_get n md c1 xs) (\<lambda>rest c2. Return (Some v # rest) c2)))
           (frame c)"
    proof (rule leaves_and_then [OF get])
      fix v c1 assume f: "frame c c1"
      show "leaves (and_then (map_get n md c1 xs) (\<lambda>rest c2. Return (Some v # rest) c2)) (frame c)"
      proof (rule leaves_and_then [OF Cons.IH])
        fix w c2 assume "frame c1 c2"
        with f show "leaves (Return (Some v # w) c2) (frame c)"
          by (simp add: frame_trans [of c c1 c2])
      next
        fix c2 assume "frame c1 c2"
        with f show "frame c c2" by (rule frame_trans)
      qed
    qed simp
    with Some show ?thesis by simp
  qed
qed

lemma resolveDependencies_frame:
  assumes get: "\<And>c i. leaves (get n md c i) (frame c)"
  shows "leaves (resolveDependencies n md c ds) (frame c)"
proof (cases ds)
  case None
  then show ?thesis by simp
next
  case (Some xs)
  then show ?thesis using map_get_frame [OF get, of c xs] by simp
qed

lemma resolveService_frame:
  assumes get: "\<And>c i. leaves (get n md c i) (frame c)"
  shows "leaves (resolveService n md c d) (frame c)"
proof (cases d)
  case (FactoryServiceDescriptor i f s)
  then show ?thesis by (simp add: frame_def)
next
  case (ConstructorServiceDescriptor i k s ds)
  have "leaves (and_then (resolveDependencies n md c ds) (\<lambda>dependencies c1. construct c1 k dependencies))
          (frame c)"
    by (rule leaves_and_then [OF resolveDependencies_frame [OF get]])
       (simp_all add: construct_frame)
  with ConstructorServiceDescriptor show ?thesis by simp
next
  case (InstanceServiceDescriptor i v)
  then show ?thesis by (simp add: construct_def frame_def)
qed

lemma handleAutoRegistration_frame:
  assumes get: "\<And>c i. leaves (get n md c i) (frame c)"
  shows "leaves (handleAutoRegistration n md c i) (frame c)"
proof (cases i)
  case (Str s)
  then show ?thesis by simp
next
  case (Tok t)
  then show ?thesis by simp
next
  case (Class k)
  show ?thesis
  proof (cases "injectable_service md k")
    case None
    with Class show ?thesis by simp
  next
    case (Some m)
    have step: "leaves (and_then (resolveService n md c2 d) (\<lambda>inst c3. Return (Some inst) (g inst c3))) (frame c)"
      if "frame c c2" and "\<And>inst c3. frame c3 (g inst c3)" for c2 d g
    proof (rule leaves_and_then [OF resolveService_frame [OF get]])
      fix inst c3 assume "frame c2 c3"
      with that show "leaves (Return (Some inst) (g inst c3)) (frame c)"
        by (auto intro: frame_trans)
    next
      fix c3 assume "frame c2 c3"
      with that show "frame c c3" by (auto intro: frame_trans)
    qed
    show ?thesis
      unfolding Class handleAutoRegistration.simps Some option.case Let_def
      by (rule step) (simp_all add: frame_def)
  qed
qed

lemma get_frame: "leaves (get n md c i) (frame c)"
proof (induction n arbitrary: c i)
  case 0
  show ?case by simp
next
  case (Suc n)
  have auto_reg: "leaves (and_then (handleAutoRegistration n md c i) f) (frame c)"
    if "\<And>a c1. frame c c1 \<Longrightarrow> leaves (f a c1) (frame c)" for f
    by (rule leaves_and_then [OF handleAutoRegistration_frame [OF Suc]]) (simp_all add: that)
  have res: "leaves (and_then (resolveService n md c d) f) (frame c)"
    if "\<And>a c1. frame c c1 \<Longrightarrow> leaves (f a c1) (frame c)" for f d
    by (rule leaves_and_then [OF resolveService_frame [OF Suc]]) (simp_all add: that)
  show ?case
    unfolding get.simps Let_def
    by (auto split: option.split intro!: auto_reg res simp add: frame_instances)
qed

lemma keeps_refl [simp]: "keeps c c"
  by (simp add: keeps_def)

lemma keeps_trans: "keeps a b \<Longrightarrow> keeps b c \<Longrightarrow> keeps a c"
  unfolding keeps_def by metis

lemma keeps_alloc: "keeps a b \<Longrightarrow> keeps a (b\<lparr>nextRef := n\<rparr>)"
  by (simp add: keeps_def)

lemma keeps_cache:
  "keeps a b \<Longrightarrow> Map_get (services a) k = Some d \<Longrightarrow> singleton d
     \<Longrightarrow> keeps a (b\<lparr>instances := Map_set (instances b) k v\<rparr>)"
  by (auto simp add: keeps_def Map_get_set)

lemma keeps_registered:
  "keeps c c' \<Longrightarrow> injectables_registered md c \<Longrightarrow> injectables_registered md c'"
  by (simp add: keeps_def injectables_registered_def)

lemma handleAutoRegistration_registered:
  assumes "injectables_registered md c"
    and "Map_get (services c) (getCanonicalIdentifier c i) = None"
  shows "handleAutoRegistration n md c i = Return None c"
proof (cases i)
  case (Class k)
  with assms have "injectable_service md k = None"
    by (auto simp add: injectables_registered_def getCanonicalIdentifier_def Map_has_get)
  with Class show ?thesis by simp
qed simp_all

lemma map_get_keeps:
  assumes get: "\<And>c i. injectables_registered md c \<Longrightarrow> leaves (get n md c i) (keeps c)"
    and reg: "injectables_registered md c"
  shows "leaves (map_get n md c xs) (keeps c)"
  using reg
proof (induction xs arbitrary: c)
  case Nil
  show ?case by simp
next
  case (Cons x xs)
  show ?case
  proof (cases x)
    case None
    have "leaves (and_then (map_get n md c xs) (\<lambda>rest c1. Return (None # rest) c1)) (keeps c)"
      by (rule leaves_and_then [OF Cons.IH [OF Cons.prems]]) simp_all
    with None show ?thesis by simp
  next
    case (Some d)
    have "leaves (and_then (get n md c d)
             (\<lambda>v c1. and_then (map_get n md c1 xs) (\<lambda>rest c2. Return (Some v # rest) c2)))
           (keeps c)"
    proof (rule leaves_and_then [OF get [OF Cons.prems]])
      fix v c1 assume k: "keeps c c1"
      then have r1: "injectables_registered md c1"
        using Cons.prems by (rule keeps_registered)
      show "leaves (and_then (map_get n md c1 xs) (\<lambda>rest c2. Return (Some v # rest) c2)) (keeps c)"
      proof (rule leaves_and_then [OF Cons.IH [OF r1]])
        fix w c2 assume "keeps c1 c2"
        with k show "leaves (Return (Some v # w) c2) (keeps c)"
          by (simp add: keeps_trans [of c c1 c2])
      next
        fix c2 assume "keeps c1 c2"
        with k show "keeps c c2" by (rule keeps_trans)
      qed
    qed simp
    with Some show ?thesis by simp
  qed
qed

lemma resolveService_keeps:
  assumes get: "\<And>c i. injectables_registered md c \<Longrightarrow> leaves (get n md c i) (keeps c)"
    and reg: "injectables_registered md c"
  shows "leaves (resolveService n md c d) (keeps c)"
proof (cases d)
  case (FactoryServiceDescriptor i f s)
  then show ?thesis by (simp add: keeps_def)
next
  case (ConstructorServiceDescriptor i k s ds)
  have deps: "leaves (resolveDependencies n md c ds) (keeps c)"
  proof (cases ds)
    case None
    then show ?thesis by simp
  next
    case (Some xs)
    then show ?thesis using map_get_keeps [OF get reg, of xs] by simp
  qed
  have "leaves (and_then (resolveDependencies n md c ds) (\<lambda>dependencies c1. construct c1 k dependencies))
          (keeps c)"
    by (rule leaves_and_then [OF deps]) (simp_all add: construct_def keeps_alloc)
  with ConstructorServiceDescriptor show ?thesis by simp
next
  case (InstanceServiceDescriptor i v)
  then show ?thesis by (simp add: construct_def keeps_def)
qed

lemma get_keeps: "injectables_registered md c \<Longrightarrow> leaves (get n md c i) (keeps c)"
proof (induction n arbitrary: c i)
  case 0
  show ?case by simp
next
  case (Suc n)
  have res: "leaves (and_then (resolveService n md c d) f) (keeps c)"
    if "\<And>a c1. keeps c c1 \<Longrightarrow> leaves (f a c1) (keeps c)" for f d
    by (rule leaves_and_then [OF resolveService_keeps [OF Suc.IH Suc.prems]]) (simp_all add: that)
  show ?case
    unfolding get.simps Let_def
    by (auto split: option.split intro!: res
          simp add: handleAutoRegistration_registered [OF Suc.prems] keeps_cache)
qed

lemma resolveDependencies_keeps:
  assumes reg: "injectables_registered md c"
  shows "leaves (resolveDependencies n md c ds) (keeps c)"
proof (cases ds)
  case None
  then show ?thesis by simp
next
  case (Some xs)
  then show ?thesis using map_get_keeps [OF get_keeps reg, of n xs] by simp
qed

lemma canonical_cong:
  "stringToIdentifierMap c' = stringToIdentifierMap c
     \<Longrightarrow> getCanonicalIdentifier c' i = getCanonicalIdentifier c i"
  by (cases i) (simp_all add: getCanonicalIdentifier_def)

lemma get_canonical:
  assumes "get n md c i = Return v c1"
  shows "getCanonicalIdentifier c1 j = getCanonicalIdentifier c j"
proof (rule canonical_cong)
  from get_frame [of n md c i] assms show "stringToIdentifierMap c1 = stringToIdentifierMap c"
    by (simp add: frame_def)
qed

lemma get_cached:
  "Map_get (instances c) (getCanonicalIdentifier c i) = Some v \<Longrightarrow> get (Suc n) md c i = Return v c"
  by simp

lemma and_then_Return:
  "and_then r f = Return v c \<Longrightarrow> \<exists>w c0. r = Return w c0 \<and> f w c0 = Return v c"
  by (cases r) simp_all

lemma and_then_Return_id [simp]: "and_then r Return = r"
  by (cases r) simp_all

lemma singleton_get_caches:
  assumes d: "Map_get (services c) (getCanonicalIdentifier c i) = Some d" "singleton d"
    and g: "get n md c i = Return v c1"
  shows "Map_get (instances c1) (getCanonicalIdentifier c i) = Some v"
proof (cases n)
  case 0
  with g show ?thesis by simp
next
  case (Suc n')
  show ?thesis
  proof (cases "Map_get (instances c) (getCanonicalIdentifier c i)")
    case (Some cached)
    with g Suc show ?thesis by simp
  next
    case None
    with g Suc d have "and_then (resolveService n' md c d)
        (\<lambda>inst c1. Return inst
           (c1\<lparr>instances := Map_set (instances c1) (getCanonicalIdentifier c i) inst\<rparr>)) = Return v c1"
      by simp
    from and_then_Return [OF this] show ?thesis
      by (auto simp add: Map_get_set)
  qed
qed

lemma transient_constructor_get:
  assumes reg: "injectables_registered md c"
    and i: "Map_get (instances c) (getCanonicalIdentifier c x) = None"
    and d: "Map_get (services c) (getCanonicalIdentifier c x) = Some (ConstructorServiceDescriptor i k False ds)"
    and g: "get n md c x = Return v c1"
  shows "\<exists>a args. v = Obj (Alloc a) k args \<and> nextRef c \<le> a \<and> a < nextRef c1"
    and "Map_get (instances c1) (getCanonicalIdentifier c x) = None"
    and "services c1 = services c"
proof -
  obtain n' where n: "n = Suc n'" using g by (cases n) simp_all
  from g n i d have "and_then (resolveDependencies n' md c ds) (\<lambda>dependencies c1. construct c1 k dependencies)
      = Return v c1"
    by simp
  from and_then_Return [OF this] obtain deps cd where
    r: "resolveDependencies n' md c ds = Return deps cd" and c: "construct cd k deps = Return v c1"
    by blast
  from resolveDependencies_frame [OF get_frame, of n' md c ds] r have f: "frame c cd" by simp
  from resolveDependencies_keeps [OF reg, of n' ds] r have kp: "keeps c cd" by simp
  from c have v: "v = Obj (Alloc (nextRef cd)) k (spread deps)" and c1: "c1 = cd\<lparr>nextRef := Suc (nextRef cd)\<rparr>"
    by (simp_all add: construct_def)
  from v c1 f show "\<exists>a args. v = Obj (Alloc a) k args \<and> nextRef c \<le> a \<and> a < nextRef c1"
    by (simp add: frame_def)
  from kp have "Map_get (instances cd) (getCanonicalIdentifier c x)
        = Map_get (instances c) (getCanonicalIdentifier c x)
      \<or> (\<exists>d'. Map_get (services c) (getCanonicalIdentifier c x) = Some d' \<and> singleton d')"
    unfolding keeps_def by blast
  with d have "Map_get (instances cd) (getCanonicalIdentifier c x)
        = Map_get (instances c) (getCanonicalIdentifier c x)"
    by auto
  with i c1 show "Map_get (instances c1) (getCanonicalIdentifier c x) = None"
    by simp
  from kp c1 show "services c1 = services c" by (simp add: keeps_def)
qed

lemma addIdentifierMapping_fields:
  "services (addIdentifierMapping c i p) = services c"
  "instances (addIdentifierMapping c i p) = instances c"
  by (cases i; cases p; simp add: addIdentifierMapping_def)+

lemma warn_overwrite_fields:
  "services (warn_overwrite c k i) = services c"
  "instances (warn_overwrite c k i) = instances c"
  "stringToIdentifierMap (warn_overwrite c k i) = stringToIdentifierMap c"
  "nextRef (warn_overwrite c k i) = nextRef c"
  by (simp_all add: warn_overwrite_def)

lemma registerFactory_canonical:
  "getCanonicalIdentifier (registerFactory c x f s) j
     = getCanonicalIdentifier (addIdentifierMapping c x None) j"
  by (rule canonical_cong) (simp add: registerFactory_def Let_def warn_overwrite_fields)

lemma registerConstructor_canonical:
  "getCanonicalIdentifier (registerConstructor c x k s ds) j
     = getCanonicalIdentifier (addIdentifierMapping c x (Some (Class k))) j"
  by (rule canonical_cong) (simp add: registerConstructor_def Let_def warn_overwrite_fields)

lemma registerInstance_canonical:
  "getCanonicalIdentifier (registerInstance c x v) j
     = getCanonicalIdentifier (addIdentifierMapping c x None) j"
  by (rule canonical_cong) (simp add: registerInstance_def Let_def warn_overwrite_fields)

lemma registerFactory_entry:
  "Map_get (services (registerFactory c x f s)) (getCanonicalIdentifier (registerFactory c x f s) x)
     = Some (FactoryServiceDescriptor (getCanonicalIdentifier (registerFactory c x f s) x) f s)"
  "Map_get (instances (registerFactory c x f s)) (getCanonicalIdentifier (registerFactory c x f s) x) = None"
  unfolding registerFactory_canonical
  by (simp_all add: registerFactory_def Let_def Map_get_set Map_get_delete)

lemma registerConstructor_entry:
  "Map_get (services (registerConstructor c x k s ds)) (getCanonicalIdentifier (registerConstructor c x k s ds) x)
     = Some (ConstructorServiceDescriptor (getCanonicalIdentifier (registerConstructor c x k s ds) x) k s ds)"
  "Map_get (instances (registerConstructor c x k s ds)) (getCanonicalIdentifier (registerConstructor c x k s ds) x) = None"
  unfolding registerConstructor_canonical
  by (simp_all add: registerConstructor_def Let_def Map_get_set Map_get_delete)

lemma registerInstance_entry:
  "Map_get (services (registerInstance c x v)) (getCanonicalIdentifier (registerInstance c x v) x)
     = Some (InstanceServiceDescriptor (getCanonicalIdentifier (registerInstance c x v) x) v)"
  "Map_get (instances (registerInstance c x v)) (getCanonicalIdentifier (registerInstance c x v) x) = Some v"
  unfolding registerInstance_canonical
  by (simp_all add: registerInstance_def Let_def Map_get_set)


section \<open>Facts about dependency resolution\<close>

lemma map_get_append:
  "map_get n md c (pre @ rest)
     = and_then (map_get n md c pre)
         (\<lambda>vs c0. and_then (map_get n md c0 rest) (\<lambda>ws c1. Return (vs @ ws) c1))"
proof (induction pre arbitrary: c)
  case Nil
  show ?case by (cases "map_get n md c rest") simp_all
next
  case (Cons x pre)
  show ?case
  proof (cases x)
    case None
    then show ?thesis
      by (cases "map_get n md c pre") (simp_all add: Cons.IH and_then_def split: result.split)
  next
    case (Some d)
    show ?thesis
    proof (cases "get n md c d")
      case (Return v c1)
      with Some show ?thesis
        by (cases "map_get n md c1 pre") (simp_all add: Cons.IH and_then_def split: result.split)
    qed (simp_all add: Some)
  qed
qed

lemma map_get_shape:
  "map_get n md c ds = Return vs c'
     \<Longrightarrow> length vs = length ds \<and> (\<forall>j<length ds. ds ! j = None \<longrightarrow> vs ! j = None)"
proof (induction ds arbitrary: c vs)
  case Nil
  then show ?case by simp
next
  case (Cons x ds)
  show ?case
  proof (cases x)
    case None
    with Cons.prems obtain rest where r: "map_get n md c ds = Return rest c'" and vs: "vs = None # rest"
      by (cases "map_get n md c ds") auto
    from Cons.IH [OF r] vs None show ?thesis
      by (auto simp add: nth_Cons split: nat.split)
  next
    case (Some d)
    with Cons.prems obtain v c1 where g: "get n md c d = Return v c1"
      by (cases "get n md c d") auto
    with Cons.prems Some obtain rest where r: "map_get n md c1 ds = Return rest c'" and vs: "vs = Some v # rest"
      by (cases "map_get n md c1 ds") auto
    from Cons.IH [OF r] vs Some show ?thesis
      by (auto simp add: nth_Cons split: nat.split)
  qed
qed

lemma map_get_declared:
  "map_get n md c (declared ds)
     = (case map_get n md c ds of
          Return vs c' \<Rightarrow> Return (declared vs) c'
        | Throw e c' \<Rightarrow> Throw e c'
        | Diverge \<Rightarrow> Diverge)"
  unfolding declared_def
proof (induction ds arbitrary: c)
  case Nil
  show ?case by simp
next
  case (Cons x ds)
  show ?case
  proof (cases x)
    case None
    with Cons.IH [of c] show ?thesis
      by (cases "map_get n md c ds") simp_all
  next
    case (Some d)
    show ?thesis
    proof (cases "get n md c d")
      case (Return v c1)
      with Some Cons.IH [of c1] show ?thesis
        by (cases "map_get n md c1 ds") simp_all
    qed (simp_all add: Some)
  qed
qed

lemma get_same_key:
  assumes "getCanonicalIdentifier c i = getCanonicalIdentifier c j"
    and "Map_get (services c) (getCanonicalIdentifier c i) \<noteq> None"
  shows "get n md c i = get n md c j"
  using assms by (cases n) (auto simp add: Let_def split: option.split)


lemma replicate_update_last: "(replicate (Suc p) x)[p := y] = replicate p x @ [y]"
  by (induction p) simp_all

lemma Inject_first:
  "param_dependencies md k = None
     \<Longrightarrow> param_dependencies (Inject dep k p md) k = Some (replicate p None @ [Some dep])"
  using replicate_update_last [of p None "Some dep"] by (simp add: Inject_def)


section \<open>Facts about traces\<close>

lemma in_order_position: "in_order p tr \<Longrightarrow> x \<in> set tr \<Longrightarrow> p \<le> position x"
proof (induction p tr rule: in_order.induct)
  case (2 p q tr)
  then show ?case by (cases "x = Awaited q") auto
qed auto

lemma in_order_after_await:
  "in_order p tr \<Longrightarrow> a < b \<Longrightarrow> b < length tr \<Longrightarrow> tr ! a = Awaited i \<Longrightarrow> i < position (tr ! b)"
proof (induction p tr arbitrary: a b rule: in_order.induct)
  case (1 p)
  then show ?case by simp
next
  case (2 p q tr)
  obtain b' where b: "b = Suc b'" using "2.prems"(2) by (cases b) auto
  show ?case
  proof (cases a)
    case 0
    with "2.prems" b have "i = p" and "tr ! b' \<in> set tr" and "in_order (Suc p) tr" by auto
    with in_order_position [of "Suc p" tr "tr ! b'"] b show ?thesis by simp
  next
    case (Suc a')
    with "2.prems" b "2.IH" [of a' b'] show ?thesis by simp
  qed
next
  case (3 p q j out tr)
  obtain b' where b: "b = Suc b'" using "3.prems"(2) by (cases b) auto
  show ?case
  proof (cases a)
    case 0
    with "3.prems" show ?thesis by simp
  next
    case (Suc a')
    with "3.prems" b "3.IH" [of a' b'] show ?thesis by simp
  qed
next
  case (4 p q j e tr)
  obtain b' where b: "b = Suc b'" using "4.prems"(2) by (cases b) auto
  show ?case
  proof (cases a)
    case 0
    with "4.prems" show ?thesis by simp
  next
    case (Suc a')
    with "4.prems" b "4.IH" [of a' b'] show ?thesis by simp
  qed
qed

lemma in_order_before_later:
  "in_order p tr \<Longrightarrow> b < length tr \<Longrightarrow> p \<le> i \<Longrightarrow> i < position (tr ! b)
     \<Longrightarrow> \<exists>a<b. tr ! a = Awaited i"
proof (induction p tr arbitrary: b rule: in_order.induct)
  case (1 p)
  then show ?case by simp
next
  case (2 p q tr)
  show ?case
  proof (cases b)
    case 0
    with "2.prems" show ?thesis by simp
  next
    case (Suc b')
    show ?thesis
    proof (cases "i = p")
      case True
      with "2.prems" Suc show ?thesis by (intro exI [of _ 0]) simp
    next
      case False
      with "2.prems" Suc "2.IH" [of b'] obtain a' where "a' < b'" "tr ! a' = Awaited i" by auto
      with Suc show ?thesis by (intro exI [of _ "Suc a'"]) simp
    qed
  qed
next
  case (3 p q j out tr)
  show ?case
  proof (cases b)
    case 0
    with "3.prems" show ?thesis by simp
  next
    case (Suc b')
    with "3.prems" "3.IH" [of b'] obtain a' where "a' < b'" "tr ! a' = Awaited i" by auto
    with Suc show ?thesis by (intro exI [of _ "Suc a'"]) simp
  qed
next
  case (4 p q j e tr)
  show ?case
  proof (cases b)
    case 0
    with "4.prems" show ?thesis by simp
  next
    case (Suc b')
    with "4.prems" "4.IH" [of b'] obtain a' where "a' < b'" "tr ! a' = Awaited i" by auto
    with Suc show ?thesis by (intro exI [of _ "Suc a'"]) simp
  qed
qed

lemma started_mono: "started h p ev ids x \<Longrightarrow> started h p ev (i # ids) x"
  by (cases x) auto

lemma start_handlers_started:
  "start_handlers n md h c p ev ids = Some (tr, c1) \<Longrightarrow> x \<in> set tr \<Longrightarrow> started h p ev ids x"
proof (induction ids arbitrary: c tr)
  case Nil
  then show ?case by simp
next
  case (Cons i ids)
  show ?case
  proof (cases "get n md c i")
    case Diverge
    with Cons.prems show ?thesis by simp
  next
    case (Throw e c2)
    with Cons.prems obtain tr2 where s: "start_handlers n md h c2 p ev ids = Some (tr2, c1)"
      and tr: "tr = Unresolved p i e # tr2"
      by (auto split: option.splits)
    from Cons.prems(2) tr Cons.IH [OF s] show ?thesis
      by (auto intro: started_mono)
  next
    case (Return handler c2)
    with Cons.prems obtain tr2 where s: "start_handlers n md h c2 p ev ids = Some (tr2, c1)"
      and tr: "tr = Invoked p i (h handler ev) # tr2"
      by (auto split: option.splits)
    from Cons.prems(2) tr Cons.IH [OF s] show ?thesis
      by (auto intro: started_mono)
  qed
qed

lemma started_in_order:
  "(\<And>x. x \<in> set tr \<Longrightarrow> started h p ev ids x) \<Longrightarrow> in_order q tr2 \<Longrightarrow> q = p \<or> tr2 = []
     \<Longrightarrow> in_order p (tr @ tr2)"
proof (induction tr)
  case Nil
  then show ?case by auto
next
  case (Cons x tr)
  from Cons.prems(1) [of x] have "started h p ev ids x" by simp
  moreover have "in_order p (tr @ tr2)"
    by (rule Cons.IH) (use Cons.prems in auto)
  ultimately show ?case by (cases x) auto
qed

lemma rejections_member: "e \<in> set (rejections tr) \<longleftrightarrow> (\<exists>x\<in>set tr. rejection x = Some e)"
  by (induction tr) (auto simp add: rejections_def List.map_filter_simps split: option.splits)

lemma rejections_empty: "rejections tr = [] \<longleftrightarrow> (\<forall>x\<in>set tr. rejection x = None)"
  by (induction tr) (auto simp add: rejections_def List.map_filter_simps split: option.splits)

lemma trace_of_after [simp]: "trace_of (after_trace tr r) = (if r = Diverged then [] else tr @ trace_of r)"
  by (cases r) simp_all

lemma reasons_of_after [simp]: "reasons_of (after_trace tr r) = reasons_of r"
  by (cases r) simp_all

lemma dispatch_from_cases:
  obtains
    (diverged) "dispatch_from n md h d c p (ev # evs) = Diverged"
  | (rejected) promises c1 where
      "start_handlers n md h c p ev (handlers_for d ev) = Some (promises, c1)"
      "rejections promises \<noteq> []"
      "dispatch_from n md h d c p (ev # evs) = Rejected (rejections promises) promises c1"
  | (continued) promises c1 where
      "start_handlers n md h c p ev (handlers_for d ev) = Some (promises, c1)"
      "rejections promises = []"
      "dispatch_from n md h d c1 (Suc p) evs \<noteq> Diverged"
      "dispatch_from n md h d c p (ev # evs)
         = after_trace (promises @ [Awaited p]) (dispatch_from n md h d c1 (Suc p) evs)"
proof (cases "start_handlers n md h c p ev (handlers_for d ev)")
  case None
  then have "dispatch_from n md h d c p (ev # evs) = Diverged"
    by (simp add: handlers_for_def)
  then show ?thesis by (rule diverged)
next
  case (Some pc)
  obtain promises c1 where pc: "pc = (promises, c1)" by (cases pc)
  show ?thesis
  proof (cases "rejections promises = []")
    case False
    with Some pc have "dispatch_from n md h d c p (ev # evs) = Rejected (rejections promises) promises c1"
      by (simp add: handlers_for_def)
    with Some pc False show ?thesis by (intro rejected) simp_all
  next
    case True
    with Some pc have eq: "dispatch_from n md h d c p (ev # evs)
         = after_trace (promises @ [Awaited p]) (dispatch_from n md h d c1 (Suc p) evs)"
      by (simp add: handlers_for_def)
    show ?thesis
    proof (cases "dispatch_from n md h d c1 (Suc p) evs = Diverged")
      case True
      with eq have "dispatch_from n md h d c p (ev # evs) = Diverged" by simp
      then show ?thesis by (rule diverged)
    next
      case False
      with Some pc True eq show ?thesis by (intro continued) simp_all
    qed
  qed
qed

lemma dispatch_from_in_order: "in_order p (trace_of (dispatch_from n md h d c p evs))"
proof (induction evs arbitrary: c p)
  case Nil
  show ?case by simp
next
  case (Cons ev evs)
  show ?case
  proof (cases rule: dispatch_from_cases [of n md h d c p ev evs])
    case diverged
    then show ?thesis by simp
  next
    case (rejected promises c1)
    have "in_order p (promises @ [])"
      by (rule started_in_order [where ?q = p])
         (auto intro: start_handlers_started [OF rejected(1)])
    with rejected(3) show ?thesis by simp
  next
    case (continued promises c1)
    have "in_order p (promises @ (Awaited p # trace_of (dispatch_from n md h d c1 (Suc p) evs)))"
      by (rule started_in_order [where ?q = p])
         (auto intro: start_handlers_started [OF continued(1)] simp add: Cons.IH)
    with continued(3,4) show ?thesis by simp
  qed
qed

lemma dispatch_from_failure:
  "x \<in> set (trace_of (dispatch_from n md h d c p evs)) \<Longrightarrow> rejection x = Some e
     \<Longrightarrow> e \<in> set (reasons_of (dispatch_from n md h d c p evs))
         \<and> (\<forall>y\<in>set (trace_of (dispatch_from n md h d c p evs)). position y \<le> position x)"
proof (induction evs arbitrary: c p)
  case Nil
  then show ?case by simp
next
  case (Cons ev evs)
  show ?case
  proof (cases rule: dispatch_from_cases [of n md h d c p ev evs])
    case diverged
    with Cons.prems show ?thesis by simp
  next
    case (rejected promises c1)
    have pos: "position y = p" if "y \<in> set promises" for y
      using start_handlers_started [OF rejected(1) that] by (cases y) auto
    from Cons.prems rejected(3) have "x \<in> set promises" by simp
    with Cons.prems(2) rejected(3) pos show ?thesis
      by (auto simp add: rejections_member)
  next
    case (continued promises c1)
    let ?r = "dispatch_from n md h d c1 (Suc p) evs"
    have pos: "position y = p" if "y \<in> set promises" for y
      using start_handlers_started [OF continued(1) that] by (cases y) auto
    from continued(2) Cons.prems(2) have "x \<notin> set promises"
      by (auto simp add: rejections_empty)
    moreover from Cons.prems(2) have "x \<noteq> Awaited p" by auto
    ultimately have x: "x \<in> set (trace_of ?r)"
      using Cons.prems(1) continued(3,4) by simp
    from Cons.IH [OF x Cons.prems(2)] have
      e: "e \<in> set (reasons_of ?r)" and le: "\<forall>y\<in>set (trace_of ?r). position y \<le> position x"
      by simp_all
    from in_order_position [OF dispatch_from_in_order x] have "Suc p \<le> position x" .
    with e le pos continued(3,4) show ?thesis by auto
  qed
qed

lemma dispatch_from_fulfilled:
  "dispatch_from n md h d c p evs = Fulfilled tr c'
     \<Longrightarrow> rejections tr = [] \<and> (\<forall>q. p \<le> q \<and> q < p + length evs \<longrightarrow> Awaited q \<in> set tr)"
proof (induction evs arbitrary: c p tr)
  case Nil
  then show ?case by (simp add: rejections_def List.map_filter_simps)
next
  case (Cons ev evs)
  show ?case
  proof (cases rule: dispatch_from_cases [of n md h d c p ev evs])
    case diverged
    with Cons.prems show ?thesis by simp
  next
    case (rejected promises c1)
    with Cons.prems show ?thesis by simp
  next
    case (continued promises c1)
    with Cons.prems obtain tr2 where r: "dispatch_from n md h d c1 (Suc p) evs = Fulfilled tr2 c'"
      and tr: "tr = promises @ [Awaited p] @ tr2"
      by (cases "dispatch_from n md h d c1 (Suc p) evs") auto
    from Cons.IH [OF r] have r2: "rejections tr2 = []"
      and aw: "\<And>q. Suc p \<le> q \<Longrightarrow> q < Suc p + length evs \<Longrightarrow> Awaited q \<in> set tr2"
      by simp_all
    from r2 continued(2) tr have "rejections tr = []"
      by (auto simp add: rejections_empty)
    moreover have "Awaited q \<in> set tr" if "p \<le> q" "q < p + length (ev # evs)" for q
    proof (cases "q = p")
      case True
      with tr show ?thesis by simp
    next
      case False
      with that aw [of q] tr show ?thesis by simp
    qed
    ultimately show ?thesis by blast
  qed
qed

lemma dispatch_from_started:
  "x \<in> set (trace_of (dispatch_from n md h d c p evs))
     \<Longrightarrow> p \<le> position x \<and> position x < p + length evs
         \<and> (x = Awaited (position x)
            \<or> started h (position x) (evs ! (position x - p)) (handlers_for d (evs ! (position x - p))) x)"
proof (induction evs arbitrary: c p)
  case Nil
  then show ?case by simp
next
  case (Cons ev evs)
  have own: "p \<le> position y \<and> position y < p + length (ev # evs)
         \<and> (y = Awaited (position y)
            \<or> started h (position y) ((ev # evs) ! (position y - p))
                 (handlers_for d ((ev # evs) ! (position y - p))) y)"
    if s: "start_handlers n md h c p ev (handlers_for d ev) = Some (promises, c1)"
      and y: "y \<in> set promises" for promises c1 y
  proof -
    from start_handlers_started [OF s y] have st: "started h p ev (handlers_for d ev) y" .
    then have "position y = p" by (cases y) auto
    with st show ?thesis by simp
  qed
  show ?case
  proof (cases rule: dispatch_from_cases [of n md h d c p ev evs])
    case diverged
    with Cons.prems show ?thesis by simp
  next
    case (rejected promises c1)
    with Cons.prems have "x \<in> set promises" by simp
    from own [OF rejected(1) this] show ?thesis .
  next
    case (continued promises c1)
    from Cons.prems continued(3,4)
    consider "x \<in> set promises" | "x = Awaited p"
      | "x \<in> set (trace_of (dispatch_from n md h d c1 (Suc p) evs))"
      by auto
    then show ?thesis
    proof cases
      case 1
      from own [OF continued(1) this] show ?thesis .
    next
      case 2
      then show ?thesis by simp
    next
      case 3
      from Cons.IH [OF 3] have a: "Suc p \<le> position x" "position x < Suc p + length evs"
        and b: "x = Awaited (position x)
            \<or> started h (position x) (evs ! (position x - Suc p))
                 (handlers_for d (evs ! (position x - Suc p))) x"
        by simp_all
      from a have "position x - p = Suc (position x - Suc p)" by arith
      then have "(ev # evs) ! (position x - p) = evs ! (position x - Suc p)" by simp
      with a b show ?thesis by auto
    qed
  qed
qed

lemma rejections_append [simp]: "rejections (xs @ ys) = rejections xs @ rejections ys"
  by (simp add: rejections_def List.map_filter_def)

lemma rejections_Cons:
  "rejections (x # xs) = (case rejection x of None \<Rightarrow> rejections xs | Some e \<Rightarrow> e # rejections xs)"
  unfolding rejections_def by simp

lemma dispatch_from_reasons:
  "reasons_of (dispatch_from n md h d c p evs) = rejections (trace_of (dispatch_from n md h d c p evs))"
proof (induction evs arbitrary: c p)
  case Nil
  show ?case by (simp add: rejections_def List.map_filter_simps)
next
  case (Cons ev evs)
  show ?case
  proof (cases rule: dispatch_from_cases [of n md h d c p ev evs])
    case diverged
    then show ?thesis by (simp add: rejections_def List.map_filter_simps)
  next
    case (rejected promises c1)
    then show ?thesis by simp
  next
    case (continued promises c1)
    from continued(2,3,4) Cons.IH [of c1 "Suc p"] show ?thesis
      by (simp add: rejections_Cons del: dispatch_from.simps)
  qed
qed

lemma invoked_at_append [simp]: "invoked_at q (xs @ ys) = invoked_at q xs @ invoked_at q ys"
  by (induction q xs rule: invoked_at.induct) simp_all

lemma invoked_at_none: "\<forall>x\<in>set tr. position x \<noteq> q \<Longrightarrow> invoked_at q tr = []"
  by (induction q tr rule: invoked_at.induct) auto

lemma start_handlers_invoked:
  "start_handlers n md h c p ev ids = Some (tr, c1) \<Longrightarrow> rejections tr = []
     \<Longrightarrow> invoked_at p tr = ids"
proof (induction ids arbitrary: c tr)
  case Nil
  then show ?case by simp
next
  case (Cons i ids)
  show ?case
  proof (cases "get n md c i")
    case Diverge
    with Cons.prems show ?thesis by simp
  next
    case (Throw e c2)
    with Cons.prems(1) obtain tr2 where "tr = Unresolved p i e # tr2"
      by (auto split: option.splits)
    with Cons.prems(2) show ?thesis by (simp add: rejections_empty)
  next
    case (Return handler c2)
    with Cons.prems(1) obtain tr2 where s: "start_handlers n md h c2 p ev ids = Some (tr2, c1)"
      and tr: "tr = Invoked p i (h handler ev) # tr2"
      by (auto split: option.splits)
    from Cons.prems(2) tr have "rejections tr2 = []" by (simp add: rejections_empty)
    from Cons.IH [OF s this] tr show ?thesis by simp
  qed
qed

lemma dispatch_from_invoked:
  "Awaited q \<in> set (trace_of (dispatch_from n md h d c p evs))
     \<Longrightarrow> invoked_at q (trace_of (dispatch_from n md h d c p evs)) = handlers_for d (evs ! (q - p))"
proof (induction evs arbitrary: c p)
  case Nil
  then show ?case by simp
next
  case (Cons ev evs)
  show ?case
  proof (cases rule: dispatch_from_cases [of n md h d c p ev evs])
    case diverged
    with Cons.prems show ?thesis by simp
  next
    case (rejected promises c1)
    with Cons.prems have "Awaited q \<in> set promises" by simp
    from start_handlers_started [OF rejected(1) this] show ?thesis by simp
  next
    case (continued promises c1)
    let ?r = "dispatch_from n md h d c1 (Suc p) evs"
    have pos: "position y = p" if "y \<in> set promises" for y
      using start_handlers_started [OF continued(1) that] by (cases y) auto
    have notin: "Awaited q \<notin> set promises"
      using start_handlers_started [OF continued(1), of "Awaited q"] by auto
    have later: "Suc p \<le> position y" if "y \<in> set (trace_of ?r)" for y
      using in_order_position [OF dispatch_from_in_order that] .
    have tr: "trace_of (dispatch_from n md h d c p (ev # evs)) = promises @ [Awaited p] @ trace_of ?r"
      using continued(3,4) by simp
    show ?thesis
    proof (cases "q = p")
      case True
      have "invoked_at p (trace_of ?r) = []"
        by (rule invoked_at_none) (use later in fastforce)
      with True tr start_handlers_invoked [OF continued(1,2)] show ?thesis by simp
    next
      case False
      with Cons.prems tr notin have aw: "Awaited q \<in> set (trace_of ?r)" by simp
      from later [OF aw] have q: "Suc p \<le> q" by simp
      then have "q - p = Suc (q - Suc p)" by arith
      then have nth: "(ev # evs) ! (q - p) = evs ! (q - Suc p)" by simp
      have "invoked_at q promises = []"
        by (rule invoked_at_none) (use pos False in auto)
      with Cons.IH [OF aw] tr nth show ?thesis by simp
    qed
  qed
qed


section \<open>The cache holds registered keys only\<close>

lemma Map_has_delete: "Map_has (Map_delete m k) k' = (k' \<noteq> k \<and> Map_has m k')"
  by (simp add: Map_has_get Map_get_delete)

lemma cache_within_services_new: "cache_within_services CustomContainer_new"
  by (simp add: cache_within_services_def CustomContainer_new_def Map_has_def)

lemma cache_within_services_clear: "cache_within_services (clear c)"
  by (simp add: cache_within_services_def clear_def Map_has_def)

lemma cache_within_services_registerFactory:
  "cache_within_services c \<Longrightarrow> cache_within_services (registerFactory c i f s)"
  by (simp add: cache_within_services_def registerFactory_def Let_def Map_has_set Map_has_delete
        warn_overwrite_fields addIdentifierMapping_fields)

lemma cache_within_services_registerConstructor:
  "cache_within_services c \<Longrightarrow> cache_within_services (registerConstructor c i k s ds)"
  by (simp add: cache_within_services_def registerConstructor_def Let_def Map_has_set Map_has_delete
        warn_overwrite_fields addIdentifierMapping_fields)

lemma cache_within_services_registerInstance:
  "cache_within_services c \<Longrightarrow> cache_within_services (registerInstance c i v)"
  by (simp add: cache_within_services_def registerInstance_def Let_def Map_has_set
        warn_overwrite_fields addIdentifierMapping_fields)

lemma grows_refl: "cache_within_services c \<Longrightarrow> grows c c"
  by (simp add: grows_def)

lemma grows_trans: "grows a b \<Longrightarrow> grows b c \<Longrightarrow> grows a c"
  by (simp add: grows_def)

lemma grows_cws: "grows a b \<Longrightarrow> cache_within_services b"
  by (simp add: grows_def)

lemma grows_alloc: "grows a b \<Longrightarrow> grows a (b\<lparr>nextRef := n\<rparr>)"
  by (simp add: grows_def cache_within_services_def)

lemma grows_cache:
  "grows a b \<Longrightarrow> Map_has (services b) k \<Longrightarrow> grows a (b\<lparr>instances := Map_set (instances b) k v\<rparr>)"
  by (auto simp add: grows_def cache_within_services_def Map_has_set)

lemma grows_register:
  "grows a b \<Longrightarrow> grows a (b\<lparr>services := Map_set (services b) k d\<rparr>)"
  by (auto simp add: grows_def cache_within_services_def Map_has_set)

lemma grows_has: "grows a b \<Longrightarrow> Map_has (services a) k \<Longrightarrow> Map_has (services b) k"
  by (simp add: grows_def)

lemma map_get_grows:
  assumes get: "\<And>c i. cache_within_services c \<Longrightarrow> leaves (get n md c i) (grows c)"
    and cws: "cache_within_services c"
  shows "leaves (map_get n md c xs) (grows c)"
  using cws
proof (induction xs arbitrary: c)
  case Nil
  then show ?case by (simp add: grows_refl)
next
  case (Cons x xs)
  show ?case
  proof (cases x)
    case None
    have "leaves (and_then (map_get n md c xs) (\<lambda>rest c1. Return (None # rest) c1)) (grows c)"
      by (rule leaves_and_then [OF Cons.IH [OF Cons.prems]]) simp_all
    with None show ?thesis by simp
  next
    case (Some d)
    have "leaves (and_then (get n md c d)
             (\<lambda>v c1. and_then (map_get n md c1 xs) (\<lambda>rest c2. Return (Some v # rest) c2)))
           (grows c)"
    proof (rule leaves_and_then [OF get [OF Cons.prems]])
      fix v c1 assume g: "grows c c1"
      show "leaves (and_then (map_get n md c1 xs) (\<lambda>rest c2. Return (Some v # rest) c2)) (grows c)"
      proof (rule leaves_and_then [OF Cons.IH [OF grows_cws [OF g]]])
        fix w c2 assume "grows c1 c2"
        with g show "leaves (Return (Some v # w) c2) (grows c)"
          by (simp add: grows_trans [of c c1 c2])
      next
        fix c2 assume "grows c1 c2"
        with g show "grows c c2" by (rule grows_trans)
      qed
    qed simp
    with Some show ?thesis by simp
  qed
qed

lemma resolveService_grows:
  assumes get: "\<And>c i. cache_within_services c \<Longrightarrow> leaves (get n md c i) (grows c)"
    and cws: "cache_within_services c"
  shows "leaves (resolveService n md c d) (grows c)"
proof (cases d)
  case (FactoryServiceDescriptor i f s)
  then show ?thesis by (simp add: grows_alloc grows_refl [OF cws])
next
  case (ConstructorServiceDescriptor i k s ds)
  have deps: "leaves (resolveDependencies n md c ds) (grows c)"
  proof (cases ds)
    case None
    then show ?thesis by (simp add: grows_refl [OF cws])
  next
    case (Some xs)
    then show ?thesis using map_get_grows [OF get cws, of xs] by (simp add: grows_refl [OF cws])
  qed
  have "leaves (and_then (resolveDependencies n md c ds) (\<lambda>dependencies c1. construct c1 k dependencies))
          (grows c)"
    by (rule leaves_and_then [OF deps]) (simp_all add: construct_def grows_alloc)
  with ConstructorServiceDescriptor show ?thesis by simp
next
  case (InstanceServiceDescriptor i v)
  then show ?thesis by (simp add: construct_def grows_alloc grows_refl [OF cws])
qed

lemma handleAutoRegistration_grows:
  assumes get: "\<And>c i. cache_within_services c \<Longrightarrow> leaves (get n md c i) (grows c)"
    and cws: "cache_within_services c"
  shows "leaves (handleAutoRegistration n md c i) (grows c)"
proof (cases i)
  case (Str s)
  then show ?thesis by (simp add: grows_refl [OF cws])
next
  case (Tok t)
  then show ?thesis by (simp add: grows_refl [OF cws])
next
  case (Class k)
  show ?thesis
  proof (cases "injectable_service md k")
    case None
    with Class show ?thesis by (simp add: grows_refl [OF cws])
  next
    case (Some m)
    define sid where "sid = (if truthy (im_id m) then im_id m else Class k)"
    define d where "d = ConstructorServiceDescriptor sid k (im_singleton m)
                          (Some (map_sparse (getCanonicalIdentifier c) (getMetadataDependencies md k)))"
    define c2 where "c2 = (if sid \<noteq> Class k
                           then c\<lparr>services := Map_set (Map_set (services c) sid d) (Class k) d\<rparr>
                           else c\<lparr>services := Map_set (services c) sid d\<rparr>)"
    have g2: "grows c c2"
      unfolding c2_def using grows_refl [OF cws] by (auto intro: grows_register simp add: grows_def
          cache_within_services_def Map_has_set)
    have h2: "Map_has (services c2) sid" "Map_has (services c2) (Class k)"
      unfolding c2_def by (auto simp add: Map_has_set)
    have "leaves (and_then (resolveService n md c2 d)
              (\<lambda>inst c3. Return (Some inst)
                 (if im_singleton m
                  then (if sid \<noteq> Class k
                        then c3\<lparr>instances := Map_set (Map_set (instances c3) sid inst) (Class k) inst\<rparr>
                        else c3\<lparr>instances := Map_set (instances c3) sid inst\<rparr>)
                  else c3))) (grows c)"
    proof (rule leaves_and_then [OF resolveService_grows [OF get grows_cws [OF g2]]])
      fix inst c3 assume g3: "grows c2 c3"
      have g: "grows c c3" using g2 g3 by (rule grows_trans)
      have h3: "Map_has (services c3) sid" "Map_has (services c3) (Class k)"
        using grows_has [OF g3] h2 by simp_all
      from g h3 show "leaves (Return (Some inst)
                 (if im_singleton m
                  then (if sid \<noteq> Class k
                        then c3\<lparr>instances := Map_set (Map_set (instances c3) sid inst) (Class k) inst\<rparr>
                        else c3\<lparr>instances := Map_set (instances c3) sid inst\<rparr>)
                  else c3)) (grows c)"
        by (auto simp add: grows_def cache_within_services_def Map_has_set)
    next
      fix c3 assume "grows c2 c3"
      with g2 show "grows c c3" by (rule grows_trans)
    qed
    moreover have "handleAutoRegistration n md c (Class k)
        = and_then (resolveService n md c2 d)
              (\<lambda>inst c3. Return (Some inst)
                 (if im_singleton m
                  then (if sid \<noteq> Class k
                        then c3\<lparr>instances := Map_set (Map_set (instances c3) sid inst) (Class k) inst\<rparr>
                        else c3\<lparr>instances := Map_set (instances c3) sid inst\<rparr>)
                  else c3))"
      by (simp add: Some Let_def sid_def d_def c2_def del: resolveService.simps cong: if_cong)
    ultimately show ?thesis
      unfolding Class by simp
  qed
qed

lemma get_grows: "cache_within_services c \<Longrightarrow> leaves (get n md c i) (grows c)"
proof (induction n arbitrary: c i)
  case 0
  show ?case by simp
next
  case (Suc n)
  note cws = Suc.prems
  have auto_reg: "leaves (and_then (handleAutoRegistration n md c i) f) (grows c)"
    if "\<And>a c1. grows c c1 \<Longrightarrow> leaves (f a c1) (grows c)" for f
    by (rule leaves_and_then [OF handleAutoRegistration_grows [OF Suc.IH cws]]) (simp_all add: that)
  have res: "leaves (and_then (resolveService n md c d) f) (grows c)"
    if "\<And>a c1. grows c c1 \<Longrightarrow> leaves (f a c1) (grows c)" for f d
    by (rule leaves_and_then [OF resolveService_grows [OF Suc.IH cws]]) (simp_all add: that)
  have cache: "grows c (c1\<lparr>instances := Map_set (instances c1) k v\<rparr>)"
    if "grows c c1" "Map_get (services c) k = Some d" for c1 k v d
  proof (rule grows_cache [OF that(1)])
    from that(2) have "Map_has (services c) k" by (simp add: Map_has_get)
    with that(1) show "Map_has (services c1) k" by (rule grows_has)
  qed
  show ?case
    unfolding get.simps Let_def
    by (auto split: option.split intro!: auto_reg res cache simp add: grows_refl [OF cws])
qed

lemma get_cache_within_services:
  "cache_within_services c \<Longrightarrow> leaves (get n md c i) cache_within_services"
  using get_grows [of c n md i] by (cases "get n md c i") (simp_all add: grows_def)


section \<open>Facts about the scan\<close>

lemma wire_fields:
  "wire regs t = Scanned t2
     \<Longrightarrow> (commandDispatcher t \<noteq> None \<longrightarrow> commandDispatcher t2 \<noteq> None)
       \<and> (queryDispatcher t \<noteq> None \<longrightarrow> queryDispatcher t2 \<noteq> None)
       \<and> (eventDispatcher t \<noteq> None \<longrightarrow> eventDispatcher t2 \<noteq> None)
       \<and> initialized t2 = initialized t \<and> container t2 = container t"
proof (induction regs arbitrary: t)
  case Nil
  then show ?case by simp
next
  case (Cons reg regs)
  show ?case
  proof (cases "handlerType reg")
    case command
    with Cons.prems obtain v d d1 where
      "wire regs (t\<lparr>commandDispatcher := Some (v, d1)\<rparr>) = Scanned t2"
      by (auto split: option.splits sum.splits)
    from Cons.IH [OF this] show ?thesis by simp
  next
    case query
    with Cons.prems obtain v d d1 where
      "wire regs (t\<lparr>queryDispatcher := Some (v, d1)\<rparr>) = Scanned t2"
      by (auto split: option.splits sum.splits)
    from Cons.IH [OF this] show ?thesis by simp
  next
    case event
    with Cons.prems obtain v d1 where
      "wire regs (t\<lparr>eventDispatcher := Some (v, d1)\<rparr>) = Scanned t2"
      by (auto split: option.splits)
    from Cons.IH [OF this] show ?thesis by simp
  qed
qed

lemma registerInstance_class:
  "Map_get (instances (registerInstance c (Class a) v)) k
     = (if k = Class a then Some v else Map_get (instances c) k)"
  by (simp add: registerInstance_def Let_def getCanonicalIdentifier_def Map_get_set
        addIdentifierMapping_fields warn_overwrite_fields)

section \<open>Handler registration\<close>

text \<open>
  C3. Registering a command (a query) handler for a target type name throws the error
  whose message carries the name when a command (query) handler is bound to the name. It
  succeeds when none is bound, and binds it, so that any command (query) registration
  after it for the same name throws, whatever the class.
  Registering an event handler never throws: it appends the class to the ordered list of
  the name, with no check that the class is new.
\<close>

theorem register_command_query_once_event_appends:
  "(Map_has (commandHandlersMap r) n \<longrightarrow>
      register r hc n command =
        Inl (Error (''Command handler for '' @ [CHR 39] @ n @ [CHR 39] @ '' already registered.'')))
   \<and> (Map_has (queryHandlersMap r) n \<longrightarrow>
      register r hc n query =
        Inl (Error (''Query handler for '' @ [CHR 39] @ n @ [CHR 39] @ '' already registered.'')))
   \<and> (\<not> Map_has (commandHandlersMap r) n \<longrightarrow>
      (\<exists>r'. register r hc n command = Inr r'
         \<and> Map_get (commandHandlersMap r') n = Some hc
         \<and> (\<forall>hc2. register r' hc2 n command =
               Inl (Error (''Command handler for '' @ [CHR 39] @ n @ [CHR 39] @ '' already registered.'')))))
   \<and> (\<not> Map_has (queryHandlersMap r) n \<longrightarrow>
      (\<exists>r'. register r hc n query = Inr r'
         \<and> Map_get (queryHandlersMap r') n = Some hc
         \<and> (\<forall>hc2. register r' hc2 n query =
               Inl (Error (''Query handler for '' @ [CHR 39] @ n @ [CHR 39] @ '' already registered.'')))))
   \<and> (\<exists>r'. register r hc n event = Inr r'
         \<and> Map_get (eventHandlersMap r') n =
             Some ((case Map_get (eventHandlersMap r) n of Some hs \<Rightarrow> hs | None \<Rightarrow> []) @ [hc]))"
  by (simp add: register_def registerServiceClass_maps Map_get_set Map_has_set Let_def)

theorem register_command_query_once_event_appends_witness:
  "\<not> Map_has (commandHandlersMap HandlerRegistry_initial) ''CreateNote''
   \<and> \<not> Map_has (queryHandlersMap HandlerRegistry_initial) ''CreateNote''
   \<and> register HandlerRegistry_initial (Cls (Given 1) ''H'') ''CreateNote'' command
       = Inr \<lparr>commandHandlersMap = [(''CreateNote'', Cls (Given 1) ''H'')], queryHandlersMap = [],
              eventHandlersMap = [], serviceClasses = [Cls (Given 1) ''H'']\<rparr>
   \<and> Map_has (commandHandlersMap
         \<lparr>commandHandlersMap = [(''CreateNote'', Cls (Given 1) ''H'')], queryHandlersMap = [],
          eventHandlersMap = [], serviceClasses = [Cls (Given 1) ''H'']\<rparr>) ''CreateNote''
   \<and> register
         \<lparr>commandHandlersMap = [(''CreateNote'', Cls (Given 1) ''H'')], queryHandlersMap = [],
          eventHandlersMap = [], serviceClasses = [Cls (Given 1) ''H'']\<rparr>
         (Cls (Given 2) ''G'') ''CreateNote'' command
       = Inl (Error ''Command handler for 'CreateNote' already registered.'')"
proof -
  let ?r1 = "\<lparr>commandHandlersMap = [(''CreateNote'', Cls (Given 1) ''H'')], queryHandlersMap = [],
              eventHandlersMap = [], serviceClasses = [Cls (Given 1) ''H'']\<rparr>"
  have h: "\<not> Map_has (commandHandlersMap HandlerRegistry_initial) ''CreateNote''"
    and q: "\<not> Map_has (queryHandlersMap HandlerRegistry_initial) ''CreateNote''"
    by (simp_all add: HandlerRegistry_initial_def Map_has_def)
  have first: "register HandlerRegistry_initial (Cls (Given 1) ''H'') ''CreateNote'' command = Inr ?r1"
    by (simp add: register_def HandlerRegistry_initial_def Map_has_def Map_set_def
          registerServiceClass_def)
  from register_command_query_once_event_appends
         [of HandlerRegistry_initial "''CreateNote''" "Cls (Given 1) ''H''"] h first
  have bound: "Map_get (commandHandlersMap ?r1) ''CreateNote'' = Some (Cls (Given 1) ''H'')"
    by simp
  then have has: "Map_has (commandHandlersMap ?r1) ''CreateNote''"
    by (simp add: Map_has_get)
  from register_command_query_once_event_appends [of ?r1 "''CreateNote''" "Cls (Given 2) ''G''"] has
  have "register ?r1 (Cls (Given 2) ''G'') ''CreateNote'' command
       = Inl (Error ''Command handler for 'CreateNote' already registered.'')"
    by simp
  with h q first has show ?thesis by blast
qed

section \<open>Dispatching without a handler\<close>

text \<open>
  C4 (as the code has it). Dispatching a command (a query) whose class name has no
  handler in the dispatcher rejects, without touching the container, with the message
  \<^verbatim>\<open>No handler registered for command '<Name>'.\<close> (\<^verbatim>\<open>... for query '<Name>'.\<close>),
  where \<^verbatim>\<open><Name>\<close> is the class name of the message: the message ends with a full stop.
\<close>

theorem dispatch_without_handler_message:
  "(Map_get (command_handlers cd) (constructor_name m) = None \<longrightarrow>
      CommandDispatcher_dispatch n md h cd c m =
        Throw (Error (''No handler registered for command '' @ [CHR 39] @ constructor_name m
                       @ [CHR 39] @ ''.'')) c)
   \<and> (Map_get (query_handlers qd) (constructor_name m) = None \<longrightarrow>
      QueryDispatcher_dispatch n md h qd c m =
        Throw (Error (''No handler registered for query '' @ [CHR 39] @ constructor_name m
                       @ [CHR 39] @ ''.'')) c)"
  by (simp add: CommandDispatcher_dispatch_def QueryDispatcher_dispatch_def)

theorem dispatch_without_handler_message_witness:
  "Map_get (command_handlers \<lparr>command_handlers = []\<rparr>) (constructor_name (Message ''CreateNote'' ''x'')) = None
   \<and> Map_get (query_handlers \<lparr>query_handlers = []\<rparr>) (constructor_name (Message ''CreateNote'' ''x'')) = None
   \<and> CommandDispatcher_dispatch 1 Metadata_empty (\<lambda>handler m. Inr Undefined)
        \<lparr>command_handlers = []\<rparr> CustomContainer_new (Message ''CreateNote'' ''x'') =
      Throw (Error ''No handler registered for command 'CreateNote'.'') CustomContainer_new
   \<and> QueryDispatcher_dispatch 1 Metadata_empty (\<lambda>handler m. Inr Undefined)
        \<lparr>query_handlers = []\<rparr> CustomContainer_new (Message ''CreateNote'' ''x'') =
      Throw (Error ''No handler registered for query 'CreateNote'.'') CustomContainer_new"
  using dispatch_without_handler_message
          [of "\<lparr>command_handlers = []\<rparr>" "Message ''CreateNote'' ''x''" 1 Metadata_empty
              "\<lambda>handler m. Inr Undefined" CustomContainer_new "\<lparr>query_handlers = []\<rparr>"]
  by (simp add: Map_get_def)

text \<open>
  C4 as stated fails: the message the claim gives, without the final full stop, is not the
  message of the rejection for a command \<^verbatim>\<open>CreateNote\<close> dispatched on a dispatcher with
  no handlers.
\<close>

theorem dispatch_without_handler_message_counterexample:
  "CommandDispatcher_dispatch 1 Metadata_empty (\<lambda>handler m. Inr Undefined)
     \<lparr>command_handlers = []\<rparr> CustomContainer_new (Message ''CreateNote'' ''x'')
   \<noteq> Throw (Error (''No handler registered for command '' @ [CHR 39] @ ''CreateNote'' @ [CHR 39]))
       CustomContainer_new"
  by (simp add: CommandDispatcher_dispatch_def Map_get_def)

section \<open>The life cycle of the orchestrator\<close>

text \<open>
  C7. On an orchestrator that is not initialized, \<^verbatim>\<open>get\<close>, \<^verbatim>\<open>executeCommand\<close>,
  \<^verbatim>\<open>executeQuery\<close>, \<^verbatim>\<open>dispatchEvents\<close> and \<^verbatim>\<open>getContainer\<close> fail with the message
  \<^verbatim>\<open>Tmick Framework not initialized. Call initialize() first.\<close> and leave the
  container as it was; and \<^verbatim>\<open>initialize\<close> called on the orchestrator a first
  \<^verbatim>\<open>initialize\<close> returned throws \<^verbatim>\<open>Tmick Framework already initialized.\<close>
\<close>

theorem lifecycle_errors:
  "(\<not> initialized t \<longrightarrow>
      Tmick_get n md t i =
        Throw (Error ''Tmick Framework not initialized. Call initialize() first.'') (container t)
    \<and> executeCommand n md h t m =
        Throw (Error ''Tmick Framework not initialized. Call initialize() first.'') (container t)
    \<and> executeQuery n md h t m =
        Throw (Error ''Tmick Framework not initialized. Call initialize() first.'') (container t)
    \<and> dispatchEvents n md h t ms =
        Rejected [Error ''Tmick Framework not initialized. Call initialize() first.''] [] (container t)
    \<and> getContainer t = Inl (Error ''Tmick Framework not initialized. Call initialize() first.''))
   \<and> (initialize t = Inr t' \<longrightarrow>
        initialize t' = Inl (Error ''Tmick Framework already initialized.''))"
  by (auto simp add: Tmick_get_def executeCommand_def executeQuery_def dispatchEvents_def
        getContainer_def not_initialized_def initialize_def split: if_splits)

theorem lifecycle_errors_witness:
  "\<not> initialized Tmick_new
   \<and> initialize Tmick_new = Inr (Tmick_new\<lparr>initialized := True\<rparr>)
   \<and> executeCommand 1 Metadata_empty (\<lambda>handler m. Inr Undefined) Tmick_new (Message ''CreateNote'' ''x'') =
        Throw (Error ''Tmick Framework not initialized. Call initialize() first.'') (container Tmick_new)
   \<and> initialize (Tmick_new\<lparr>initialized := True\<rparr>) = Inl (Error ''Tmick Framework already initialized.'')"
proof -
  have a: "\<not> initialized Tmick_new" by (simp add: Tmick_new_def)
  have b: "initialize Tmick_new = Inr (Tmick_new\<lparr>initialized := True\<rparr>)"
    by (simp add: initialize_def a)
  from lifecycle_errors [of Tmick_new 1 Metadata_empty "Str ''x''" "\<lambda>handler m. Inr Undefined"
         "Message ''CreateNote'' ''x''" "[]" "Tmick_new\<lparr>initialized := True\<rparr>"] a b
  show ?thesis by simp
qed

text \<open>
  C9. \<^verbatim>\<open>initialize\<close> looks at the flag only: on any orchestrator whose flag is false it
  returns the orchestrator with the flag set and nothing else changed. On a new
  orchestrator, on which \<^verbatim>\<open>autoScanAndRegisters\<close> never ran, it succeeds; the three
  dispatcher fields are still null afterwards, and \<^verbatim>\<open>executeCommand\<close>,
  \<^verbatim>\<open>executeQuery\<close> and \<^verbatim>\<open>dispatchEvents\<close> get past the initialization check: they
  do not fail with the not-initialized error but on the null dispatcher. It is
  \<^verbatim>\<open>autoScanAndRegisters\<close> that assigns the three fields, when it returns, and it leaves the
  flag alone.
\<close>

theorem initialize_checks_flag_only:
  "(\<not> initialized t \<longrightarrow> initialize t = Inr (t\<lparr>initialized := True\<rparr>))
   \<and> (\<exists>t'. initialize Tmick_new = Inr t'
         \<and> commandDispatcher t' = None \<and> queryDispatcher t' = None \<and> eventDispatcher t' = None
         \<and> executeCommand n md h t' m = Throw null_dispatch (container t')
         \<and> executeQuery n md h t' m = Throw null_dispatch (container t')
         \<and> dispatchEvents n md h t' ms = Rejected [null_dispatch] [] (container t')
         \<and> null_dispatch \<noteq> not_initialized)
   \<and> (autoScanAndRegisters n md r t = Scanned t2 \<longrightarrow>
         commandDispatcher t2 \<noteq> None \<and> queryDispatcher t2 \<noteq> None \<and> eventDispatcher t2 \<noteq> None
         \<and> initialized t2 = initialized t)"
proof (intro conjI impI)
  assume "\<not> initialized t"
  then show "initialize t = Inr (t\<lparr>initialized := True\<rparr>)"
    by (simp add: initialize_def)
next
  show "\<exists>t'. initialize Tmick_new = Inr t'
         \<and> commandDispatcher t' = None \<and> queryDispatcher t' = None \<and> eventDispatcher t' = None
         \<and> executeCommand n md h t' m = Throw null_dispatch (container t')
         \<and> executeQuery n md h t' m = Throw null_dispatch (container t')
         \<and> dispatchEvents n md h t' ms = Rejected [null_dispatch] [] (container t')
         \<and> null_dispatch \<noteq> not_initialized"
    by (simp add: initialize_def Tmick_new_def executeCommand_def executeQuery_def
          dispatchEvents_def null_dispatch_def not_initialized_def)
next
  assume a: "autoScanAndRegisters n md r t = Scanned t2"
  then obtain t4 where w: "wire (getRegistrations r) t4 = Scanned t2"
    and f: "commandDispatcher t4 \<noteq> None" "queryDispatcher t4 \<noteq> None" "eventDispatcher t4 \<noteq> None"
           "initialized t4 = initialized t"
    by (auto simp add: autoScanAndRegisters_def Let_def split: result.splits)
  from wire_fields [OF w] f
  show "commandDispatcher t2 \<noteq> None" "queryDispatcher t2 \<noteq> None" "eventDispatcher t2 \<noteq> None"
    "initialized t2 = initialized t"
    by simp_all
qed

theorem initialize_checks_flag_only_witness:
  "\<not> initialized Tmick_new
   \<and> initialize Tmick_new = Inr (Tmick_new\<lparr>initialized := True\<rparr>)
   \<and> (case autoScanAndRegisters (Suc 0) Metadata_empty HandlerRegistry_initial
            (Tmick_new\<lparr>container :=
               registerValue
                 (registerValue
                    (registerValue (container Tmick_new) (Class CommandDispatcher_class)
                       (Obj (Given 1) CommandDispatcher_class [ContainerSelf]))
                    (Class QueryDispatcher_class)
                    (Obj (Given 2) QueryDispatcher_class [ContainerSelf]))
                 (Class EventDispatcher_class)
                 (Obj (Given 3) EventDispatcher_class [ContainerSelf])\<rparr>) of
         Scanned t2 \<Rightarrow> commandDispatcher t2 \<noteq> None \<and> \<not> initialized t2
       | ScanThrew e t2 \<Rightarrow> False
       | ScanDiverged \<Rightarrow> False)"
proof -
  let ?t = "Tmick_new\<lparr>container :=
               registerValue
                 (registerValue
                    (registerValue (container Tmick_new) (Class CommandDispatcher_class)
                       (Obj (Given 1) CommandDispatcher_class [ContainerSelf]))
                    (Class QueryDispatcher_class)
                    (Obj (Given 2) QueryDispatcher_class [ContainerSelf]))
                 (Class EventDispatcher_class)
                 (Obj (Given 3) EventDispatcher_class [ContainerSelf])\<rparr>"
  have n: "\<not> initialized Tmick_new" by (simp add: Tmick_new_def)
  have "\<exists>t2. autoScanAndRegisters (Suc 0) Metadata_empty HandlerRegistry_initial ?t = Scanned t2"
    by (simp add: autoScanAndRegisters_def getServiceClasses_def getRegistrations_def
          HandlerRegistry_initial_def getCanonicalIdentifier_def registerValue_def
          registerInstance_class CommandDispatcher_class_def QueryDispatcher_class_def
          EventDispatcher_class_def)
  then obtain t2 where s: "autoScanAndRegisters (Suc 0) Metadata_empty HandlerRegistry_initial ?t
          = Scanned t2"
    by blast
  from initialize_checks_flag_only
         [where t = Tmick_new and n = "Suc 0" and md = Metadata_empty
            and r = HandlerRegistry_initial and ?t2.0 = t2] n
  have i: "initialize Tmick_new = Inr (Tmick_new\<lparr>initialized := True\<rparr>)" by simp
  from initialize_checks_flag_only
         [where t = ?t and n = "Suc 0" and md = Metadata_empty
            and r = HandlerRegistry_initial and ?t2.0 = t2] s
  have "commandDispatcher t2 \<noteq> None \<and> initialized t2 = initialized ?t" by simp
  with n i s show ?thesis by (simp add: Tmick_new_def)
qed

section \<open>Who owns the registry and the container\<close>

text \<open>
  C8 (as the code has it). The container belongs to the orchestrator that created it:
  \<^verbatim>\<open>dispose\<close> on one orchestrator clears that orchestrator's container and flag and
  leaves the services another orchestrator reports as they were. The handler registry
  is static, one for all orchestrators of the process: what \<^verbatim>\<open>HandlerRegistry.register\<close>
  adds is reported by every orchestrator, and after \<^verbatim>\<open>dispose\<close> on one orchestrator every
  other orchestrator reports no handler registration and no service class.
\<close>

theorem registry_shared_container_owned:
  "(dispose r t1 = (r', t1') \<longrightarrow>
      registeredServices (Tmick_getDebugInfo r' t1') = []
    \<and> \<not> debug_initialized (Tmick_getDebugInfo r' t1')
    \<and> registeredServices (Tmick_getDebugInfo r' t2) = registeredServices (Tmick_getDebugInfo r t2)
    \<and> containerInfo (Tmick_getDebugInfo r' t2) = containerInfo (Tmick_getDebugInfo r t2)
    \<and> debug_initialized (Tmick_getDebugInfo r' t2) = debug_initialized (Tmick_getDebugInfo r t2)
    \<and> handlerRegistrations (Tmick_getDebugInfo r' t2) = []
    \<and> serviceClassesRegisteredForScan (Tmick_getDebugInfo r' t2) = [])
   \<and> (register r hc n k = Inr r2 \<longrightarrow>
        handlerRegistrations (Tmick_getDebugInfo r2 t1) = getRegistrations r2
      \<and> handlerRegistrations (Tmick_getDebugInfo r2 t2) = getRegistrations r2)"
  by (auto simp add: dispose_def Tmick_getDebugInfo_def HandlerRegistry_clear_def clear_def
        getDebugInfo_def getRegistrations_def getServiceClasses_def Map_keys_def)


theorem registry_shared_container_owned_witness:
  "dispose HandlerRegistry_initial Tmick_new
     = (HandlerRegistry_initial, Tmick_new\<lparr>container := clear (container Tmick_new)\<rparr>)
   \<and> register HandlerRegistry_initial (Cls (Given 1) ''H'') ''CreateNote'' command
     = Inr \<lparr>commandHandlersMap = [(''CreateNote'', Cls (Given 1) ''H'')], queryHandlersMap = [],
            eventHandlersMap = [], serviceClasses = [Cls (Given 1) ''H'']\<rparr>
   \<and> registeredServices (Tmick_getDebugInfo HandlerRegistry_initial
         (Tmick_new\<lparr>container := clear (container Tmick_new)\<rparr>)) = []
   \<and> registeredServices (Tmick_getDebugInfo HandlerRegistry_initial (Tmick_new\<lparr>initialized := True\<rparr>))
       = [''IServiceContainer'']
   \<and> handlerRegistrations (Tmick_getDebugInfo
         \<lparr>commandHandlersMap = [(''CreateNote'', Cls (Given 1) ''H'')], queryHandlersMap = [],
          eventHandlersMap = [], serviceClasses = [Cls (Given 1) ''H'']\<rparr>
         (Tmick_new\<lparr>initialized := True\<rparr>))
       = [\<lparr>handlerClass = Cls (Given 1) ''H'', targetType = ''CreateNote'', handlerType = command\<rparr>]"
proof -
  have d: "dispose HandlerRegistry_initial Tmick_new
     = (HandlerRegistry_initial, Tmick_new\<lparr>container := clear (container Tmick_new)\<rparr>)"
    by (simp add: dispose_def HandlerRegistry_clear_def HandlerRegistry_initial_def Tmick_new_def)
  have g: "register HandlerRegistry_initial (Cls (Given 1) ''H'') ''CreateNote'' command
     = Inr \<lparr>commandHandlersMap = [(''CreateNote'', Cls (Given 1) ''H'')], queryHandlersMap = [],
            eventHandlersMap = [], serviceClasses = [Cls (Given 1) ''H'']\<rparr>"
    by (simp add: register_def HandlerRegistry_initial_def Map_has_def Map_set_def
          registerServiceClass_def)
  have s: "registeredServices (Tmick_getDebugInfo HandlerRegistry_initial (Tmick_new\<lparr>initialized := True\<rparr>))
       = [''IServiceContainer'']"
    by (simp add: Tmick_getDebugInfo_def Tmick_new_def getDebugInfo_def registerValue_def
          registerInstance_def ISERVICECONTAINER_TOKEN_def addIdentifierMapping_def
          CustomContainer_new_def getCanonicalIdentifier_def warn_overwrite_def Map_has_def
          Map_set_def Map_keys_def Let_def)
  have r: "getRegistrations
         \<lparr>commandHandlersMap = [(''CreateNote'', Cls (Given 1) ''H'')], queryHandlersMap = [],
          eventHandlersMap = [], serviceClasses = [Cls (Given 1) ''H'']\<rparr>
       = [\<lparr>handlerClass = Cls (Given 1) ''H'', targetType = ''CreateNote'', handlerType = command\<rparr>]"
    by (simp add: getRegistrations_def)
  from registry_shared_container_owned
         [of HandlerRegistry_initial Tmick_new HandlerRegistry_initial
             "Tmick_new\<lparr>container := clear (container Tmick_new)\<rparr>"
             "Tmick_new\<lparr>initialized := True\<rparr>" "Cls (Given 1) ''H''" "''CreateNote''" command
             "\<lparr>commandHandlersMap = [(''CreateNote'', Cls (Given 1) ''H'')], queryHandlersMap = [],
               eventHandlersMap = [], serviceClasses = [Cls (Given 1) ''H'']\<rparr>"]
       d g s r
  show ?thesis by simp
qed

text \<open>
  C8 as stated fails: with one command handler in the registry, \<^verbatim>\<open>dispose\<close> on a new
  orchestrator changes the handler registrations that another, initialized orchestrator
  reports.
\<close>

theorem registry_shared_container_owned_counterexample:
  "handlerRegistrations
     (Tmick_getDebugInfo
        (fst (dispose \<lparr>commandHandlersMap = [(''CreateNote'', Cls (Given 1) ''H'')],
                       queryHandlersMap = [], eventHandlersMap = [],
                       serviceClasses = [Cls (Given 1) ''H'']\<rparr> Tmick_new))
        (Tmick_new\<lparr>initialized := True\<rparr>))
   \<noteq> handlerRegistrations
     (Tmick_getDebugInfo
        \<lparr>commandHandlersMap = [(''CreateNote'', Cls (Given 1) ''H'')],
         queryHandlersMap = [], eventHandlersMap = [],
         serviceClasses = [Cls (Given 1) ''H'']\<rparr>
        (Tmick_new\<lparr>initialized := True\<rparr>))"
  by (simp add: dispose_def Tmick_getDebugInfo_def HandlerRegistry_clear_def getRegistrations_def)


section \<open>Singletons and transients\<close>





section \<open>Unregistered identifiers and failing dependencies\<close>

text \<open>
  C5. In a container whose cache holds registered keys only (every container made by
  the registration methods and \<^verbatim>\<open>get\<close> is one), a \<^verbatim>\<open>get(x)\<close> whose canonical key has
  no descriptor, and for which the fallback registers nothing, throws the error that names
  \<open>x\<close> and leaves the container as it was: \<^verbatim>\<open>Service '<s>' not registered.\<close> for the
  string \<open>s\<close>, the same with the name of the token for a token, and the same with the name
  of the class for a class for which \<^verbatim>\<open>Reflect.getMetadata\<close> finds no
  \<^verbatim>\<open>cqrs:injectable-service\<close> metadata, its own or inherited (for a string and for a token
  the fallback never registers). And if the key of \<open>x\<close> has a constructor descriptor with
  no cache entry, the dependencies before \<open>dep\<close> resolve, and \<^verbatim>\<open>get(dep)\<close> throws \<open>e\<close>,
  then \<^verbatim>\<open>get(x)\<close> throws the same \<open>e\<close> and leaves the container exactly as the failed
  \<^verbatim>\<open>get(dep)\<close> left it: nothing was constructed or cached for \<open>x\<close>.
\<close>

theorem unregistered_and_failed_dependency:
  "(cache_within_services c
      \<and> Map_get (services c) (getCanonicalIdentifier c (Str name)) = None \<longrightarrow>
        get (Suc n) md c (Str name) =
          Throw (Error (''Service '' @ [CHR 39] @ name @ [CHR 39] @ '' not registered.'')) c)
   \<and> (cache_within_services c
      \<and> Map_get (services c) (Tok (Token r name)) = None \<longrightarrow>
        get (Suc n) md c (Tok (Token r name)) =
          Throw (Error (''Service '' @ [CHR 39] @ name @ [CHR 39] @ '' not registered.'')) c)
   \<and> (cache_within_services c
      \<and> Map_get (services c) (Class (Cls r name)) = None
      \<and> injectable_service md (Cls r name) = None \<longrightarrow>
        get (Suc n) md c (Class (Cls r name)) =
          Throw (Error (''Service '' @ [CHR 39] @ name @ [CHR 39] @ '' not registered.'')) c)
   \<and> (Map_get (instances c) (getCanonicalIdentifier c x) = None
      \<and> Map_get (services c) (getCanonicalIdentifier c x)
          = Some (ConstructorServiceDescriptor i k s (Some (pre @ Some dep # post)))
      \<and> map_get n md c pre = Return vs c0
      \<and> get n md c0 dep = Throw e c' \<longrightarrow>
        get (Suc n) md c x = Throw e c')"
proof (intro conjI impI)
  assume a: "cache_within_services c
      \<and> Map_get (services c) (getCanonicalIdentifier c (Str name)) = None"
  then have "Map_get (instances c) (getCanonicalIdentifier c (Str name)) = None"
    by (auto simp add: cache_within_services_def Map_has_get)
  with a show "get (Suc n) md c (Str name) =
          Throw (Error (''Service '' @ [CHR 39] @ name @ [CHR 39] @ '' not registered.'')) c"
    by (simp add: not_registered_def)
next
  assume a: "cache_within_services c \<and> Map_get (services c) (Tok (Token r name)) = None"
  then have "Map_get (instances c) (Tok (Token r name)) = None"
    by (auto simp add: cache_within_services_def Map_has_get)
  with a show "get (Suc n) md c (Tok (Token r name)) =
          Throw (Error (''Service '' @ [CHR 39] @ name @ [CHR 39] @ '' not registered.'')) c"
    by (simp add: not_registered_def getCanonicalIdentifier_def)
next
  assume a: "cache_within_services c
      \<and> Map_get (services c) (Class (Cls r name)) = None
      \<and> injectable_service md (Cls r name) = None"
  then have "Map_get (instances c) (Class (Cls r name)) = None"
    by (auto simp add: cache_within_services_def Map_has_get)
  with a show "get (Suc n) md c (Class (Cls r name)) =
          Throw (Error (''Service '' @ [CHR 39] @ name @ [CHR 39] @ '' not registered.'')) c"
    by (simp add: not_registered_def getCanonicalIdentifier_def)
next
  assume a: "Map_get (instances c) (getCanonicalIdentifier c x) = None
      \<and> Map_get (services c) (getCanonicalIdentifier c x)
          = Some (ConstructorServiceDescriptor i k s (Some (pre @ Some dep # post)))
      \<and> map_get n md c pre = Return vs c0
      \<and> get n md c0 dep = Throw e c'"
  then have "map_get n md c (pre @ Some dep # post) = Throw e c'"
    by (simp add: map_get_append)
  with a show "get (Suc n) md c x = Throw e c'"
    by simp
qed

theorem unregistered_and_failed_dependency_witness:
  "get (Suc 0)
      (fst (Injectable (Options None) (Cls (Given 2) ''Repo'') (Metadata_empty, HandlerRegistry_initial)))
      (registerConstructor
         (registerConstructor CustomContainer_new (Class (Cls (Given 2) ''Repo'')) (Cls (Given 2) ''Repo'') True None)
         (Str ''svc'') (Cls (Given 1) ''NoteService'') True
         (Some [Some (Class (Cls (Given 2) ''Repo'')), Some (Class (Cls (Given 3) ''Mailer''))]))
      (Str ''missing'')
     = Throw (Error ''Service 'missing' not registered.'')
        (registerConstructor
           (registerConstructor CustomContainer_new (Class (Cls (Given 2) ''Repo'')) (Cls (Given 2) ''Repo'') True None)
           (Str ''svc'') (Cls (Given 1) ''NoteService'') True
           (Some [Some (Class (Cls (Given 2) ''Repo'')), Some (Class (Cls (Given 3) ''Mailer''))]))
   \<and> get (Suc 0)
      (fst (Injectable (Options None) (Cls (Given 2) ''Repo'') (Metadata_empty, HandlerRegistry_initial)))
      (registerConstructor
         (registerConstructor CustomContainer_new (Class (Cls (Given 2) ''Repo'')) (Cls (Given 2) ''Repo'') True None)
         (Str ''svc'') (Cls (Given 1) ''NoteService'') True
         (Some [Some (Class (Cls (Given 2) ''Repo'')), Some (Class (Cls (Given 3) ''Mailer''))]))
      (Tok (Token (Given 5) ''IClock''))
     = Throw (Error ''Service 'IClock' not registered.'')
        (registerConstructor
           (registerConstructor CustomContainer_new (Class (Cls (Given 2) ''Repo'')) (Cls (Given 2) ''Repo'') True None)
           (Str ''svc'') (Cls (Given 1) ''NoteService'') True
           (Some [Some (Class (Cls (Given 2) ''Repo'')), Some (Class (Cls (Given 3) ''Mailer''))]))
   \<and> get (Suc 0)
      (fst (Injectable (Options None) (Cls (Given 2) ''Repo'') (Metadata_empty, HandlerRegistry_initial)))
      (registerConstructor
         (registerConstructor CustomContainer_new (Class (Cls (Given 2) ''Repo'')) (Cls (Given 2) ''Repo'') True None)
         (Str ''svc'') (Cls (Given 1) ''NoteService'') True
         (Some [Some (Class (Cls (Given 2) ''Repo'')), Some (Class (Cls (Given 3) ''Mailer''))]))
      (Class (Cls (Given 3) ''Mailer''))
     = Throw (Error ''Service 'Mailer' not registered.'')
        (registerConstructor
           (registerConstructor CustomContainer_new (Class (Cls (Given 2) ''Repo'')) (Cls (Given 2) ''Repo'') True None)
           (Str ''svc'') (Cls (Given 1) ''NoteService'') True
           (Some [Some (Class (Cls (Given 2) ''Repo'')), Some (Class (Cls (Given 3) ''Mailer''))]))
   \<and> map_get (Suc 0)
      (fst (Injectable (Options None) (Cls (Given 2) ''Repo'') (Metadata_empty, HandlerRegistry_initial)))
      (registerConstructor
         (registerConstructor CustomContainer_new (Class (Cls (Given 2) ''Repo'')) (Cls (Given 2) ''Repo'') True None)
         (Str ''svc'') (Cls (Given 1) ''NoteService'') True
         (Some [Some (Class (Cls (Given 2) ''Repo'')), Some (Class (Cls (Given 3) ''Mailer''))]))
      [Some (Class (Cls (Given 2) ''Repo''))]
     = Return [Some (Obj (Alloc 0) (Cls (Given 2) ''Repo'') [])]
        ((registerConstructor
           (registerConstructor CustomContainer_new (Class (Cls (Given 2) ''Repo'')) (Cls (Given 2) ''Repo'') True None)
           (Str ''svc'') (Cls (Given 1) ''NoteService'') True
           (Some [Some (Class (Cls (Given 2) ''Repo'')), Some (Class (Cls (Given 3) ''Mailer''))]))
         \<lparr>instances := [(Class (Cls (Given 2) ''Repo''), Obj (Alloc 0) (Cls (Given 2) ''Repo'') [])],
           nextRef := 1\<rparr>)
   \<and> get (Suc (Suc 0))
      (fst (Injectable (Options None) (Cls (Given 2) ''Repo'') (Metadata_empty, HandlerRegistry_initial)))
      (registerConstructor
         (registerConstructor CustomContainer_new (Class (Cls (Given 2) ''Repo'')) (Cls (Given 2) ''Repo'') True None)
         (Str ''svc'') (Cls (Given 1) ''NoteService'') True
         (Some [Some (Class (Cls (Given 2) ''Repo'')), Some (Class (Cls (Given 3) ''Mailer''))]))
      (Str ''svc'')
     = Throw (Error ''Service 'Mailer' not registered.'')
        ((registerConstructor
           (registerConstructor CustomContainer_new (Class (Cls (Given 2) ''Repo'')) (Cls (Given 2) ''Repo'') True None)
           (Str ''svc'') (Cls (Given 1) ''NoteService'') True
           (Some [Some (Class (Cls (Given 2) ''Repo'')), Some (Class (Cls (Given 3) ''Mailer''))]))
         \<lparr>instances := [(Class (Cls (Given 2) ''Repo''), Obj (Alloc 0) (Cls (Given 2) ''Repo'') [])],
           nextRef := 1\<rparr>)"
proof -
  let ?repo = "Cls (Given 2) ''Repo''"
  let ?svc = "Cls (Given 1) ''NoteService''"
  let ?mailer = "Cls (Given 3) ''Mailer''"
  let ?md = "fst (Injectable (Options None) ?repo (Metadata_empty, HandlerRegistry_initial))"
  let ?deps = "[Some (Class ?repo), Some (Class ?mailer)]"
  let ?c = "registerConstructor
         (registerConstructor CustomContainer_new (Class ?repo) ?repo True None)
         (Str ''svc'') ?svc True (Some ?deps)"
  let ?after = "?c\<lparr>instances := [(Class ?repo, Obj (Alloc 0) ?repo [])], nextRef := 1\<rparr>"
  have inv: "cache_within_services ?c"
    by (intro cache_within_services_registerConstructor cache_within_services_new)
  have plain: "injectable_service ?md ?mailer = None"
    by (simp add: Injectable_def Metadata_empty_def Let_def)
  have s_str: "Map_get (services ?c) (getCanonicalIdentifier ?c (Str ''missing'')) = None"
    and s_tok: "Map_get (services ?c) (Tok (Token (Given 5) ''IClock'')) = None"
    and s_cls: "Map_get (services ?c) (Class ?mailer) = None"
    by (simp_all add: container_eval)
  from unregistered_and_failed_dependency
         [where c = ?c and name = "''missing''" and md = ?md and n = 0] inv s_str
  have g_str: "get (Suc 0) ?md ?c (Str ''missing'')
                 = Throw (Error ''Service 'missing' not registered.'') ?c"
    by simp
  from unregistered_and_failed_dependency
         [where c = ?c and name = "''IClock''" and r = "Given 5" and md = ?md and n = 0] inv s_tok
  have g_tok: "get (Suc 0) ?md ?c (Tok (Token (Given 5) ''IClock''))
                 = Throw (Error ''Service 'IClock' not registered.'') ?c"
    by simp
  from unregistered_and_failed_dependency
         [where c = ?c and name = "''Mailer''" and r = "Given 3" and md = ?md and n = 0]
       inv s_cls plain
  have g_cls: "get (Suc 0) ?md ?c (Class ?mailer)
                 = Throw (Error ''Service 'Mailer' not registered.'') ?c"
    by simp
  have pre: "map_get (Suc 0) ?md ?c [Some (Class ?repo)]
               = Return [Some (Obj (Alloc 0) ?repo [])] ?after"
    by (simp add: container_eval)
  from map_get_grows [OF get_grows inv, of "Suc 0" ?md "[Some (Class ?repo)]"] pre
  have i0: "cache_within_services ?after"
    by (simp add: grows_def)
  have s0: "Map_get (services ?after) (Class ?mailer) = None"
    by (simp add: container_eval)
  from unregistered_and_failed_dependency
         [where c = ?after and name = "''Mailer''" and r = "Given 3" and md = ?md and n = 0]
       i0 s0 plain
  have dep: "get (Suc 0) ?md ?after (Class ?mailer)
               = Throw (Error ''Service 'Mailer' not registered.'') ?after"
    by simp
  have i1: "Map_get (instances ?c) (getCanonicalIdentifier ?c (Str ''svc'')) = None"
    and s1: "Map_get (services ?c) (getCanonicalIdentifier ?c (Str ''svc''))
               = Some (ConstructorServiceDescriptor (Class ?svc) ?svc True
                         (Some ([Some (Class ?repo)] @ Some (Class ?mailer) # [])))"
    by (simp_all add: container_eval)
  from unregistered_and_failed_dependency
         [where c = ?c and x = "Str ''svc''" and md = ?md and n = "Suc 0"
            and i = "Class ?svc" and k = ?svc and s = True and pre = "[Some (Class ?repo)]"
            and dep = "Class ?mailer" and post = "[]"
            and vs = "[Some (Obj (Alloc 0) ?repo [])]" and ?c0.0 = ?after
            and e = "Error ''Service 'Mailer' not registered.''" and c' = ?after]
       i1 s1 pre dep
  have "get (Suc (Suc 0)) ?md ?c (Str ''svc'')
          = Throw (Error ''Service 'Mailer' not registered.'') ?after"
    by blast
  with g_str g_tok g_cls pre show ?thesis by blast
qed

section \<open>String names and classes\<close>

text \<open>
  C6 (as the code has it). If the table of names has no entry for \<open>name\<close>, then after
  \<^verbatim>\<open>registerConstructor(name, C, ...)\<close> the name is mapped to \<open>C\<close>, both \<open>name\<close> and
  \<open>C\<close> have the canonical key \<open>C\<close>, under which the descriptor is stored, every
  \<^verbatim>\<open>get(name)\<close> is the same call as \<^verbatim>\<open>get(C)\<close>, and once a \<^verbatim>\<open>get(name)\<close> of a
  singleton has returned an instance, \<^verbatim>\<open>get(C)\<close> and \<^verbatim>\<open>get(name)\<close> return that
  instance. If the table has an entry for \<open>name\<close>, the registration leaves the entry
  as it is. A string the table has no entry for is its own canonical key.
\<close>

theorem registerConstructor_maps_new_name:
  "(\<not> Map_has (stringToIdentifierMap c) name \<longrightarrow>
      (let c' = registerConstructor c (Str name) k s ds in
         Map_get (stringToIdentifierMap c') name = Some (Class k)
       \<and> getCanonicalIdentifier c' (Str name) = Class k
       \<and> getCanonicalIdentifier c' (Class k) = Class k
       \<and> Map_get (services c') (Class k) = Some (ConstructorServiceDescriptor (Class k) k s ds)
       \<and> get n md c' (Str name) = get n md c' (Class k)
       \<and> (s \<and> get n md c' (Str name) = Return v c1 \<longrightarrow>
            get (Suc m) md c1 (Class k) = Return v c1
          \<and> get (Suc m) md c1 (Str name) = Return v c1)))
   \<and> (Map_has (stringToIdentifierMap c) name \<longrightarrow>
        Map_get (stringToIdentifierMap (registerConstructor c (Str name) k s ds)) name
          = Map_get (stringToIdentifierMap c) name)
   \<and> (Map_get (stringToIdentifierMap c) str = None \<longrightarrow> getCanonicalIdentifier c (Str str) = Str str)"
proof (intro conjI impI)
  assume new: "\<not> Map_has (stringToIdentifierMap c) name"
  define c' where "c' = registerConstructor c (Str name) k s ds"
  have m: "Map_get (stringToIdentifierMap c') name = Some (Class k)"
    using new by (simp add: c'_def registerConstructor_def addIdentifierMapping_def Let_def
                     warn_overwrite_fields Map_get_set)
  then have cn: "getCanonicalIdentifier c' (Str name) = Class k"
    by (simp add: getCanonicalIdentifier_def)
  have ck: "getCanonicalIdentifier c' (Class k) = Class k"
    by (simp add: getCanonicalIdentifier_def)
  have d: "Map_get (services c') (Class k) = Some (ConstructorServiceDescriptor (Class k) k s ds)"
    using registerConstructor_entry(1) [of c "Str name" k s ds] cn by (simp add: c'_def)
  have same: "get n md c' (Str name) = get n md c' (Class k)"
    by (rule get_same_key) (simp_all add: cn ck d)
  have twice: "get (Suc m) md c1 (Class k) = Return v c1 \<and> get (Suc m) md c1 (Str name) = Return v c1"
    if "s \<and> get n md c' (Str name) = Return v c1"
  proof -
    from that have g: "get n md c' (Str name) = Return v c1" and s: s by simp_all
    have sg: "singleton (ConstructorServiceDescriptor (Class k) k s ds)"
      using s by simp
    have dd: "Map_get (services c') (getCanonicalIdentifier c' (Str name))
                = Some (ConstructorServiceDescriptor (Class k) k s ds)"
      using d cn by simp
    have "Map_get (instances c1) (getCanonicalIdentifier c' (Str name)) = Some v"
      by (rule singleton_get_caches [OF dd sg g])
    then have "Map_get (instances c1) (getCanonicalIdentifier c1 (Str name)) = Some v"
      and "Map_get (instances c1) (getCanonicalIdentifier c1 (Class k)) = Some v"
      by (simp_all add: get_canonical [OF g] cn ck)
    then show ?thesis by (simp add: get_cached del: get.simps)
  qed
  from m cn ck d same twice
  show "let c' = registerConstructor c (Str name) k s ds in
         Map_get (stringToIdentifierMap c') name = Some (Class k)
       \<and> getCanonicalIdentifier c' (Str name) = Class k
       \<and> getCanonicalIdentifier c' (Class k) = Class k
       \<and> Map_get (services c') (Class k) = Some (ConstructorServiceDescriptor (Class k) k s ds)
       \<and> get n md c' (Str name) = get n md c' (Class k)
       \<and> (s \<and> get n md c' (Str name) = Return v c1 \<longrightarrow>
            get (Suc m) md c1 (Class k) = Return v c1
          \<and> get (Suc m) md c1 (Str name) = Return v c1)"
    unfolding c'_def Let_def by blast
next
  assume "Map_has (stringToIdentifierMap c) name"
  then show "Map_get (stringToIdentifierMap (registerConstructor c (Str name) k s ds)) name
          = Map_get (stringToIdentifierMap c) name"
    by (simp add: registerConstructor_def addIdentifierMapping_def Let_def warn_overwrite_fields)
next
  assume "Map_get (stringToIdentifierMap c) str = None"
  then show "getCanonicalIdentifier c (Str str) = Str str"
    by (simp add: getCanonicalIdentifier_def)
qed

theorem registerConstructor_maps_new_name_witness:
  "\<not> Map_has (stringToIdentifierMap CustomContainer_new) ''svc''
   \<and> get (Suc 0) Metadata_empty
        (registerConstructor CustomContainer_new (Str ''svc'') (Cls (Given 1) ''NoteService'') True None)
        (Str ''svc'')
      = Return (Obj (Alloc 0) (Cls (Given 1) ''NoteService'') [])
          \<lparr>services = [(Class (Cls (Given 1) ''NoteService''),
                         ConstructorServiceDescriptor (Class (Cls (Given 1) ''NoteService''))
                           (Cls (Given 1) ''NoteService'') True None)],
           instances = [(Class (Cls (Given 1) ''NoteService''),
                         Obj (Alloc 0) (Cls (Given 1) ''NoteService'') [])],
           stringToIdentifierMap = [(''svc'', Class (Cls (Given 1) ''NoteService''))],
           nextRef = 1, warnings = []\<rparr>
   \<and> returned (get (Suc 0) Metadata_empty
        \<lparr>services = [(Class (Cls (Given 1) ''NoteService''),
                       ConstructorServiceDescriptor (Class (Cls (Given 1) ''NoteService''))
                         (Cls (Given 1) ''NoteService'') True None)],
         instances = [(Class (Cls (Given 1) ''NoteService''),
                       Obj (Alloc 0) (Cls (Given 1) ''NoteService'') [])],
         stringToIdentifierMap = [(''svc'', Class (Cls (Given 1) ''NoteService''))],
         nextRef = 1, warnings = []\<rparr>
        (Class (Cls (Given 1) ''NoteService'')))
      = Some (Obj (Alloc 0) (Cls (Given 1) ''NoteService'') [])"
proof -
  let ?k = "Cls (Given 1) ''NoteService''"
  let ?c1 = "\<lparr>services = [(Class ?k, ConstructorServiceDescriptor (Class ?k) ?k True None)],
              instances = [(Class ?k, Obj (Alloc 0) ?k [])],
              stringToIdentifierMap = [(''svc'', Class ?k)], nextRef = 1, warnings = []\<rparr>"
  have new: "\<not> Map_has (stringToIdentifierMap CustomContainer_new) ''svc''"
    by (simp add: CustomContainer_new_def Map_has_def)
  have g: "get (Suc 0) Metadata_empty
             (registerConstructor CustomContainer_new (Str ''svc'') ?k True None) (Str ''svc'')
           = Return (Obj (Alloc 0) ?k []) ?c1"
    by (simp add: container_eval)
  from registerConstructor_maps_new_name
         [where c = CustomContainer_new and name = "''svc''" and k = ?k and s = True and ds = None
            and n = "Suc 0" and md = Metadata_empty and v = "Obj (Alloc 0) ?k []" and ?c1.0 = ?c1
            and m = 0] new g
  have "get (Suc 0) Metadata_empty ?c1 (Class ?k) = Return (Obj (Alloc 0) ?k []) ?c1"
    unfolding Let_def by blast
  with new g show ?thesis by simp
qed

text \<open>
  C6 as stated fails when the name is already in the table: after
  \<^verbatim>\<open>registerConstructor('svc', D)\<close> and then \<^verbatim>\<open>registerConstructor('svc', C)\<close> the
  name is still mapped to \<open>D\<close>; \<^verbatim>\<open>get('svc')\<close> returns a new \<open>C\<close>, and
  \<^verbatim>\<open>get(C)\<close> returns nothing: it throws.
\<close>

theorem registerConstructor_maps_new_name_counterexample:
  "Map_get (stringToIdentifierMap
       (registerConstructor
          (registerConstructor CustomContainer_new (Str ''svc'') (Cls (Given 2) ''D'') True None)
          (Str ''svc'') (Cls (Given 1) ''C'') True None)) ''svc''
     = Some (Class (Cls (Given 2) ''D''))
   \<and> Class (Cls (Given 2) ''D'') \<noteq> Class (Cls (Given 1) ''C'')
   \<and> returned (get (Suc 0) Metadata_empty
       (registerConstructor
          (registerConstructor CustomContainer_new (Str ''svc'') (Cls (Given 2) ''D'') True None)
          (Str ''svc'') (Cls (Given 1) ''C'') True None) (Str ''svc''))
     = Some (Obj (Alloc 0) (Cls (Given 1) ''C'') [])
   \<and> returned (get (Suc 0) Metadata_empty
       (registerConstructor
          (registerConstructor CustomContainer_new (Str ''svc'') (Cls (Given 2) ''D'') True None)
          (Str ''svc'') (Cls (Given 1) ''C'') True None) (Class (Cls (Given 1) ''C'')))
     = None"
  by (simp add: container_eval Metadata_empty_def)

section \<open>Gaps in the declared dependencies\<close>

text \<open>
  C10. \<^verbatim>\<open>Inject\<close> on parameter \<open>p\<close> of a class with no parameter metadata yet stores
  an array with holes at the indices below \<open>p\<close>, and that array is what
  \<^verbatim>\<open>getMetadataDependencies\<close> returns. Resolving a dependency array with holes calls
  \<^verbatim>\<open>get\<close> for the declared entries only: it leaves the same container and fails with
  the same error as resolving the array without its holes, and returns the same
  instances. When the resolution of a constructor descriptor returns, the object was
  constructed with one argument per index of the array, \<^verbatim>\<open>undefined\<close> at every hole.
\<close>

theorem gap_is_skipped_and_passed_undefined:
  "(param_dependencies md k = None \<longrightarrow>
      getMetadataDependencies (Inject dep k p md) k = replicate p None @ [Some dep])
   \<and> map_get n md c (declared ds)
       = (case map_get n md c ds of
            Return vs c' \<Rightarrow> Return (declared vs) c'
          | Throw e c' \<Rightarrow> Throw e c'
          | Diverge \<Rightarrow> Diverge)
   \<and> (resolveService n md c (ConstructorServiceDescriptor i k s (Some ds)) = Return v c1 \<longrightarrow>
        (\<exists>a args. v = Obj a k args \<and> length args = length ds
            \<and> (\<forall>j<length ds. ds ! j = None \<longrightarrow> args ! j = Undefined)))"
proof (intro conjI impI)
  assume "param_dependencies md k = None"
  then show "getMetadataDependencies (Inject dep k p md) k = replicate p None @ [Some dep]"
    by (simp add: getMetadataDependencies_def Inject_first)
next
  show "map_get n md c (declared ds)
       = (case map_get n md c ds of
            Return vs c' \<Rightarrow> Return (declared vs) c'
          | Throw e c' \<Rightarrow> Throw e c'
          | Diverge \<Rightarrow> Diverge)"
    by (rule map_get_declared)
next
  assume a: "resolveService n md c (ConstructorServiceDescriptor i k s (Some ds)) = Return v c1"
  show "\<exists>a args. v = Obj a k args \<and> length args = length ds
            \<and> (\<forall>j<length ds. ds ! j = None \<longrightarrow> args ! j = Undefined)"
  proof (cases "ds = []")
    case True
    with a show ?thesis by (auto simp add: construct_def spread_def)
  next
    case False
    with a have "and_then (map_get n md c ds) (\<lambda>dependencies c1. construct c1 k dependencies) = Return v c1"
      by simp
    from and_then_Return [OF this] obtain vs c0 where
      m: "map_get n md c ds = Return vs c0" and v: "construct c0 k vs = Return v c1"
      by blast
    from map_get_shape [OF m] v show ?thesis
      by (auto simp add: construct_def spread_def)
  qed
qed

theorem gap_is_skipped_and_passed_undefined_witness:
  "param_dependencies Metadata_empty (Cls (Given 1) ''NoteService'') = None
   \<and> getMetadataDependencies
        (Inject (Class (Cls (Given 2) ''Repo'')) (Cls (Given 1) ''NoteService'') 1 Metadata_empty)
        (Cls (Given 1) ''NoteService'')
      = [None, Some (Class (Cls (Given 2) ''Repo''))]
   \<and> returned (get (Suc (Suc 0))
        (Inject (Class (Cls (Given 2) ''Repo'')) (Cls (Given 1) ''NoteService'') 1 Metadata_empty)
        (registerByClass
           (Inject (Class (Cls (Given 2) ''Repo'')) (Cls (Given 1) ''NoteService'') 1 Metadata_empty)
           (registerByClass Metadata_empty CustomContainer_new (Cls (Given 2) ''Repo'') True)
           (Cls (Given 1) ''NoteService'') True)
        (Class (Cls (Given 1) ''NoteService'')))
      = Some (Obj (Alloc 1) (Cls (Given 1) ''NoteService'')
               [Undefined, Obj (Alloc 0) (Cls (Given 2) ''Repo'') []])"
proof -
  let ?svc = "Cls (Given 1) ''NoteService''"
  let ?repo = "Cls (Given 2) ''Repo''"
  let ?md = "Inject (Class ?repo) ?svc 1 Metadata_empty"
  let ?c = "registerByClass ?md (registerByClass Metadata_empty CustomContainer_new ?repo True) ?svc True"
  have none: "param_dependencies Metadata_empty ?svc = None"
    by (simp add: Metadata_empty_def)
  from gap_is_skipped_and_passed_undefined
         [where md = Metadata_empty and k = ?svc and dep = "Class ?repo" and p = 1] none
  have deps: "getMetadataDependencies ?md ?svc = [None, Some (Class ?repo)]"
    by simp
  have "returned (get (Suc (Suc 0)) ?md ?c (Class ?svc))
      = Some (Obj (Alloc 1) ?svc [Undefined, Obj (Alloc 0) ?repo []])"
    by (simp add: registerByClass_def deps map_sparse_def container_eval
          getMetadataDependencies_def Metadata_empty_def Inject_def)
  with none deps show ?thesis by simp
qed


section \<open>The order of event dispatch\<close>




end
